theory Spec2Isabelle
  imports Main "HOL-Library.Word"
begin

section \<open>Data model of the kernel (kernel/hilevel.c)\<close>

text \<open>
  The kernel keeps its state in globals: \<open>currentProcesses\<close>, \<open>time\<close>, \<open>procTab\<close>,
  \<open>openFileTab\<close> and \<open>executing\<close>. Each handler also receives the saved register record
  \<open>*ctx\<close>. The model threads all of them through the handlers as one record, together with
  the bytes sent to the UART, the user memory the handlers read and write through user
  pointers, and the store of pipes obtained from \<open>malloc\<close>.

  Every array access of the source is checked in the model: an index outside the table, a null
  \<open>executing\<close> or pipe pointer, a released pipe, a remainder by zero and a conversion of a
  \<open>double\<close> outside the range of \<open>int\<close> are results of their own (\<open>Inl\<close> of a fault),
  since C leaves them undefined.
\<close>

type_synonym u32 = "32 word"
type_synonym byte = "8 word"

text \<open>
  Modelled from the spec: the header hilevel.h, which declares \<open>status_t\<close>, \<open>ctx_t\<close>,
  \<open>pcb_t\<close>, \<open>fd_t\<close>, \<open>pipe_t\<close> and the access flags, is missing. The spec names four
  statuses, the two flags, a context made of the general-purpose registers, the program
  counter, the stack pointer and the status word, and the fields of a process control block,
  of an open-file entry and of a pipe. The C \<open>int\<close> fields (\<open>pid\<close>, \<open>niceness\<close>, the
  descriptors, \<open>refCount\<close>, the pipe indices) are integers; \<open>tos\<close> and \<open>lastExec\<close>, which
  the source assigns from \<open>uint32_t\<close> values, are 32-bit words.
\<close>

datatype status_t = STATUS_INVALID | STATUS_READY | STATUS_EXECUTING | STATUS_TERMINATED

datatype flag_t = RDONLY | WRONLY

record ctx_t =
  cpsr :: u32
  pc :: u32
  gpr :: "nat \<Rightarrow> u32"
  sp :: u32

record pcb_t =
  pid :: int
  status :: status_t
  tos :: u32
  ctx :: ctx_t
  lastExec :: u32
  niceness :: int
  fdTab :: "int list"

text \<open>A pipe pointer is an address of the pipe store; address 0 is the null pointer.\<close>

record fd_t =
  file_ptr :: nat
  flag :: flag_t
  refCount :: int

record pipe_t =
  front :: int
  rear :: int
  size_pipe :: int
  full :: bool
  buffer :: "byte list"

datatype fault = NullPointer | OutOfBounds | DanglingPointer | DivByZero | IntConversion

record kstate =
  currentProcesses :: int
  time :: u32
  procTab :: "pcb_t list"
  openFileTab :: "fd_t list"
  executing :: "nat option"
  uctx :: ctx_t
  uart :: string
  mem :: "u32 \<Rightarrow> byte"
  heap :: "pipe_t option list"

text \<open>
  Modelled from the spec: the capacities \<open>MAX_PROCS\<close> and \<open>MAX_FDS\<close>, the length of a pipe's
  embedded buffer (\<open>sizeof(p->buffer)\<close>), the interrupt id of the timer and the addresses
  supplied by the linker are not in the source files at hand; they are parameters.
\<close>

record config =
  MAX_PROCS :: nat
  MAX_FDS :: nat
  BUF_SIZE :: nat
  GIC_SOURCE_TIMER0 :: u32
  tos_console :: u32
  tos_p :: u32
  main_console :: u32

section \<open>Sequencing and checked table access\<close>

definition thenR :: "fault + 'a \<Rightarrow> ('a \<Rightarrow> fault + 'b) \<Rightarrow> fault + 'b" where
  "thenR r f = (case r of Inl e \<Rightarrow> Inl e | Inr x \<Rightarrow> f x)"

text \<open>A counted loop \<open>for (i = ...; i < ...; i++)\<close> without \<open>break\<close>, over its index values.\<close>

fun for_loop :: "nat list \<Rightarrow> (nat \<Rightarrow> 'a \<Rightarrow> fault + 'a) \<Rightarrow> 'a \<Rightarrow> fault + 'a" where
  "for_loop [] body s = Inr s"
| "for_loop (i # is) body s = thenR (body i s) (for_loop is body)"

definition get_proc :: "kstate \<Rightarrow> int \<Rightarrow> fault + pcb_t" where
  "get_proc s i =
     (if 0 \<le> i \<and> i < int (length (procTab s)) then Inr (procTab s ! nat i) else Inl OutOfBounds)"

definition set_proc :: "kstate \<Rightarrow> int \<Rightarrow> (pcb_t \<Rightarrow> pcb_t) \<Rightarrow> fault + kstate" where
  "set_proc s i f =
     (if 0 \<le> i \<and> i < int (length (procTab s))
      then Inr (s\<lparr>procTab := (procTab s)[nat i := f (procTab s ! nat i)]\<rparr>)
      else Inl OutOfBounds)"

definition get_file :: "kstate \<Rightarrow> int \<Rightarrow> fault + fd_t" where
  "get_file s i =
     (if 0 \<le> i \<and> i < int (length (openFileTab s)) then Inr (openFileTab s ! nat i)
      else Inl OutOfBounds)"

definition set_file :: "kstate \<Rightarrow> int \<Rightarrow> (fd_t \<Rightarrow> fd_t) \<Rightarrow> fault + kstate" where
  "set_file s i f =
     (if 0 \<le> i \<and> i < int (length (openFileTab s))
      then Inr (s\<lparr>openFileTab := (openFileTab s)[nat i := f (openFileTab s ! nat i)]\<rparr>)
      else Inl OutOfBounds)"

text \<open>\<open>executing\<close> points into \<open>procTab\<close>; the model keeps the index of the slot.\<close>

definition get_executing :: "kstate \<Rightarrow> fault + (nat \<times> pcb_t)" where
  "get_executing s =
     (case executing s of
        None \<Rightarrow> Inl NullPointer
      | Some e \<Rightarrow> thenR (get_proc s (int e)) (\<lambda>p. Inr (e, p)))"

definition get_fd :: "pcb_t \<Rightarrow> nat \<Rightarrow> fault + int" where
  "get_fd p i = (if i < length (fdTab p) then Inr (fdTab p ! i) else Inl OutOfBounds)"

definition set_fd :: "nat \<Rightarrow> int \<Rightarrow> pcb_t \<Rightarrow> pcb_t" where
  "set_fd i v p = p\<lparr>fdTab := (fdTab p)[i := v]\<rparr>"

text \<open>C's \<open>%\<close> on \<open>int\<close> truncates towards zero; a zero divisor is undefined.\<close>

definition c_rem :: "int \<Rightarrow> int \<Rightarrow> fault + int" where
  "c_rem a b = (if b = 0 then Inl DivByZero else Inr (sgn a * (\<bar>a\<bar> mod \<bar>b\<bar>)))"

section \<open>Console output\<close>

definition PL011_putc :: "char \<Rightarrow> kstate \<Rightarrow> kstate" where
  "PL011_putc c s = s\<lparr>uart := uart s @ [c]\<rparr>"

text \<open>\<open>print(x, n)\<close> sends the first \<open>n\<close> characters of \<open>x\<close>.\<close>

definition print :: "string \<Rightarrow> nat \<Rightarrow> kstate \<Rightarrow> kstate" where
  "print x n s = foldl (\<lambda>t c. PL011_putc c t) s (take n x)"

text \<open>
  \<open>printPID\<close>: \<open>units = pid % 10\<close>; the tens digit is sent only when \<open>pid >= 10\<close>, where
  \<open>(pid - units) / 10\<close> is a division of non-negative numbers.
\<close>

definition printPID :: "int \<Rightarrow> kstate \<Rightarrow> kstate" where
  "printPID p s =
     (let units = sgn p * (\<bar>p\<bar> mod 10);
          s1 = (if p \<ge> 10 then PL011_putc (char_of (48 + (p - units) div 10)) s else s)
      in PL011_putc (char_of (48 + units)) s1)"

section \<open>Dispatch and scheduling\<close>

definition dispatch :: "kstate \<Rightarrow> nat option \<Rightarrow> nat option \<Rightarrow> fault + kstate" where
  "dispatch s prev next =
     (let s0 = PL011_putc CHR ''['' s in
      thenR (case prev of
               Some p \<Rightarrow>
                 thenR (set_proc s0 (int p) (\<lambda>q. q\<lparr>ctx := uctx s0\<rparr>))
                   (\<lambda>s1. thenR (get_proc s1 (int p)) (\<lambda>q. Inr (printPID (pid q) s1)))
             | None \<Rightarrow> Inr (PL011_putc CHR ''?'' s0))
        (\<lambda>s2. let s3 = PL011_putc CHR ''>'' (PL011_putc CHR ''-'' s2) in
           thenR (case next of
                    Some n \<Rightarrow>
                      thenR (get_proc s3 (int n))
                        (\<lambda>q. Inr (printPID (pid q) (s3\<lparr>uctx := ctx q\<rparr>)))
                  | None \<Rightarrow> Inr (PL011_putc CHR ''?'' s3))
             (\<lambda>s4. Inr ((PL011_putc CHR '']'' s4)\<lparr>executing := next\<rparr>))))"

text \<open>
  The aging score \<open>(time - procTab[i].lastExec) - procTab[i].niceness\<close>. \<open>time\<close> is a
  \<open>uint32_t\<close>, so C computes both subtractions in unsigned 32-bit arithmetic (the \<open>int\<close>
  niceness is converted to unsigned) and the \<open>double ipriority\<close> holds that value exactly.
\<close>

definition ipriority :: "u32 \<Rightarrow> pcb_t \<Rightarrow> int" where
  "ipriority t p = uint ((t - lastExec p) - word_of_int (niceness p))"

definition INT_MAX :: int where
  "INT_MAX = 2147483647"

text \<open>
  The selection loop of \<open>schedule\<close> over the pair \<open>(highestPriority, nextIndex)\<close>. The
  assignment \<open>highestPriority = ipriority\<close> converts the double back to \<open>int\<close>, which is
  undefined above \<open>INT_MAX\<close>.
\<close>

fun schedule_loop :: "kstate \<Rightarrow> nat list \<Rightarrow> int \<times> int \<Rightarrow> fault + (int \<times> int)" where
  "schedule_loop s [] acc = Inr acc"
| "schedule_loop s (i # is) (highestPriority, nextIndex) =
     thenR (get_proc s (int i))
       (\<lambda>p. if status p = STATUS_READY
             then (if ipriority (time s) p \<ge> highestPriority
                   then (if ipriority (time s) p \<le> INT_MAX
                         then schedule_loop s is (ipriority (time s) p, int i)
                         else Inl IntConversion)
                   else schedule_loop s is (highestPriority, nextIndex))
             else schedule_loop s is (highestPriority, nextIndex))"

definition schedule :: "config \<Rightarrow> kstate \<Rightarrow> fault + kstate" where
  "schedule cfg s =
     thenR (get_executing s)
       (\<lambda>(e, pe).
          let prevIndex = pid pe in
          thenR (schedule_loop s [0..<MAX_PROCS cfg] (niceness pe - 1, pid pe))
            (\<lambda>(highestPriority, nextIndex).
               if 0 \<le> nextIndex \<and> nextIndex < int (length (procTab s))
               then
                 thenR (dispatch s (Some e) (Some (nat nextIndex)))
                   (\<lambda>s1. thenR (set_proc s1 prevIndex (\<lambda>q. q\<lparr>lastExec := time s1\<rparr>))
                   (\<lambda>s2. thenR (set_proc s2 prevIndex
                                   (\<lambda>q. if status q = STATUS_EXECUTING
                                         then q\<lparr>status := STATUS_READY\<rparr> else q))
                   (\<lambda>s3. thenR (set_proc s3 nextIndex (\<lambda>q. q\<lparr>status := STATUS_EXECUTING\<rparr>))
                   (\<lambda>s4. Inr (s4\<lparr>time := time s4 + 1\<rparr>)))))
               else Inl OutOfBounds))"

section \<open>The reset handler\<close>

definition zero_ctx :: ctx_t where
  "zero_ctx = \<lparr>cpsr = 0, pc = 0, gpr = (\<lambda>_. 0), sp = 0\<rparr>"

text \<open>\<open>memset(&procTab[i], 0, sizeof(pcb_t))\<close>: every field of the slot becomes zero.\<close>

definition memset_pcb :: "pcb_t \<Rightarrow> pcb_t" where
  "memset_pcb q =
     \<lparr>pid = 0, status = STATUS_INVALID, tos = 0, ctx = zero_ctx, lastExec = 0, niceness = 0,
      fdTab = map (\<lambda>_. 0) (fdTab q)\<rparr>"

text \<open>
  The writes to the timer and to the interrupt controller and \<open>int_enable_irq\<close> act on
  devices outside the kernel's tables; the model leaves them out.
\<close>

definition hilevel_handler_rst :: "config \<Rightarrow> kstate \<Rightarrow> fault + kstate" where
  "hilevel_handler_rst cfg s =
     thenR (for_loop [0..<MAX_PROCS cfg]
              (\<lambda>i t. set_proc t (int i) (\<lambda>q. q\<lparr>status := STATUS_INVALID\<rparr>))
              (PL011_putc CHR ''R'' s))
     (\<lambda>s1. thenR (for_loop [0..<MAX_FDS cfg]
              (\<lambda>i t. if i < 3
                      then thenR (set_file t (int i) (\<lambda>f. f\<lparr>refCount := 1\<rparr>))
                             (\<lambda>t1. set_file t1 (int i)
                                      (\<lambda>f. f\<lparr>flag := (if i = 0 then RDONLY else WRONLY)\<rparr>))
                      else set_file t (int i) (\<lambda>f. f\<lparr>refCount := 0\<rparr>))
              s1)
     (\<lambda>s2. thenR (set_proc s2 0
              (\<lambda>q. (memset_pcb q)\<lparr>pid := 0, status := STATUS_READY, tos := tos_console cfg\<rparr>))
     (\<lambda>s3. thenR (set_proc s3 0
              (\<lambda>q. q\<lparr>ctx := (ctx q)\<lparr>cpsr := 0x50, pc := main_console cfg, sp := tos q\<rparr>,
                      lastExec := time s3, niceness := 0\<rparr>))
     (\<lambda>s4. thenR (for_loop [0..<MAX_FDS cfg]
              (\<lambda>i t. thenR (get_proc t 0)
                        (\<lambda>q. if i < length (fdTab q) then set_proc t 0 (set_fd i (- 1))
                              else Inl OutOfBounds))
              s4)
     (\<lambda>s5. dispatch (s5\<lparr>currentProcesses := currentProcesses s5 + 1\<rparr>) None (Some 0))))))"

text \<open>
  The state at power-on: the globals are zero-initialised (\<open>currentProcesses = 0\<close>,
  \<open>time = 0\<close>, \<open>executing = NULL\<close>, all table entries zero), nothing has been printed and no
  pipe has been allocated. The saved context and the user memory are whatever the platform
  hands over.
\<close>

definition zero_pcb :: "nat \<Rightarrow> pcb_t" where
  "zero_pcb n =
     \<lparr>pid = 0, status = STATUS_INVALID, tos = 0, ctx = zero_ctx, lastExec = 0, niceness = 0,
      fdTab = replicate n 0\<rparr>"

definition boot :: "config \<Rightarrow> ctx_t \<Rightarrow> (u32 \<Rightarrow> byte) \<Rightarrow> kstate" where
  "boot cfg c m =
     \<lparr>currentProcesses = 0, time = 0,
      procTab = replicate (MAX_PROCS cfg) (zero_pcb (MAX_FDS cfg)),
      openFileTab = replicate (MAX_FDS cfg) \<lparr>file_ptr = 0, flag = RDONLY, refCount = 0\<rparr>,
      executing = None, uctx = c, uart = [], mem = m, heap = []\<rparr>"

section \<open>The interrupt handler\<close>

text \<open>The interrupt id is read from the interrupt controller; it is an input of the model.\<close>

definition hilevel_handler_irq :: "config \<Rightarrow> kstate \<Rightarrow> u32 \<Rightarrow> fault + kstate" where
  "hilevel_handler_irq cfg s ident =
     (if ident = GIC_SOURCE_TIMER0 cfg then schedule cfg s else Inr s)"

section \<open>Descriptors and the store of pipes\<close>

text \<open>
  \<open>malloc\<close> and \<open>free\<close> belong to the C library, not to the kernel. The model is a store
  that hands out a new address on each allocation and never fails; \<open>free\<close> empties the cell.
  Releasing the null pointer does nothing in C. Releasing a pointer a second time, or one that
  \<open>malloc\<close> never returned, is undefined in C: it is a fault, and so is reading or writing a
  pipe through a null or released pointer.
\<close>

definition malloc :: "pipe_t \<Rightarrow> kstate \<Rightarrow> kstate \<times> nat" where
  "malloc p s = (s\<lparr>heap := heap s @ [Some p]\<rparr>, length (heap s) + 1)"

definition free :: "nat \<Rightarrow> kstate \<Rightarrow> fault + kstate" where
  "free a s =
     (if a = 0 then Inr s
      else if length (heap s) < a then Inl DanglingPointer
      else (case heap s ! (a - 1) of
              None \<Rightarrow> Inl DanglingPointer
            | Some p \<Rightarrow> Inr (s\<lparr>heap := (heap s)[a - 1 := None]\<rparr>)))"

definition get_pipe :: "kstate \<Rightarrow> nat \<Rightarrow> fault + pipe_t" where
  "get_pipe s a =
     (if a = 0 then Inl NullPointer
      else if length (heap s) < a then Inl DanglingPointer
      else (case heap s ! (a - 1) of None \<Rightarrow> Inl DanglingPointer | Some p \<Rightarrow> Inr p))"

definition put_pipe :: "nat \<Rightarrow> pipe_t \<Rightarrow> kstate \<Rightarrow> kstate" where
  "put_pipe a p s = s\<lparr>heap := (heap s)[a - 1 := Some p]\<rparr>"

text \<open>\<open>procTab[pid].fdTab[i] = v\<close>, with both indices checked.\<close>

definition set_proc_fd :: "kstate \<Rightarrow> int \<Rightarrow> nat \<Rightarrow> int \<Rightarrow> fault + kstate" where
  "set_proc_fd s pd i v =
     thenR (get_proc s pd)
       (\<lambda>q. if i < length (fdTab q) then set_proc s pd (set_fd i v) else Inl OutOfBounds)"

text \<open>The inner loop of \<open>open_fd\<close>: the first unused slot of the caller's table takes \<open>fd\<close>.\<close>

fun open_fd_slot :: "kstate \<Rightarrow> nat list \<Rightarrow> int \<Rightarrow> fault + kstate" where
  "open_fd_slot s [] fd = Inr s"
| "open_fd_slot s (j # js) fd =
     thenR (get_executing s)
       (\<lambda>(e, pe). thenR (get_fd pe j)
          (\<lambda>v. if v < 0 then set_proc_fd s (int e) j fd else open_fd_slot s js fd))"

fun open_fd_loop :: "config \<Rightarrow> kstate \<Rightarrow> nat list \<Rightarrow> nat \<Rightarrow> flag_t \<Rightarrow> fault + (kstate \<times> int)" where
  "open_fd_loop cfg s [] p fl = Inr (s, - 1)"
| "open_fd_loop cfg s (i # is) p fl =
     thenR (get_file s (int i))
       (\<lambda>f. if refCount f = 0
             then thenR (set_file s (int i)
                           (\<lambda>f. f\<lparr>file_ptr := p, flag := fl, refCount := refCount f + 1\<rparr>))
                    (\<lambda>s1. thenR (open_fd_slot s1 [0..<MAX_FDS cfg] (int i))
                             (\<lambda>s2. Inr (s2, int i)))
             else open_fd_loop cfg s is p fl)"

definition open_fd :: "config \<Rightarrow> kstate \<Rightarrow> nat \<Rightarrow> flag_t \<Rightarrow> fault + (kstate \<times> int)" where
  "open_fd cfg s p fl = open_fd_loop cfg s [3..<MAX_FDS cfg] p fl"

definition close_fd :: "config \<Rightarrow> kstate \<Rightarrow> int \<Rightarrow> int \<Rightarrow> fault + (kstate \<times> int)" where
  "close_fd cfg s fd pd =
     (if fd \<ge> 0 \<and> fd < int (MAX_FDS cfg)
      then
        thenR (for_loop [0..<MAX_FDS cfg]
                 (\<lambda>i t. thenR (get_proc t pd)
                           (\<lambda>q. thenR (get_fd q i)
                              (\<lambda>v. if v = fd then set_proc_fd t pd i (- 1) else Inr t)))
                 s)
        (\<lambda>s1. thenR (set_file s1 fd (\<lambda>f. f\<lparr>refCount := refCount f - 1\<rparr>))
        (\<lambda>s2. thenR (get_file s2 fd)
        (\<lambda>f. thenR (if refCount f \<le> 0 then free (file_ptr f) s2 else Inr s2)
        (\<lambda>s3. Inr (s3, 0)))))
      else Inr (s, - 1))"

section \<open>The supervisor call handler\<close>

definition set_gpr0 :: "u32 \<Rightarrow> kstate \<Rightarrow> kstate" where
  "set_gpr0 v s = s\<lparr>uctx := (uctx s)\<lparr>gpr := (gpr (uctx s))(0 := v)\<rparr>\<rparr>"

text \<open>
  The loop of \<open>write\<close> on a pipe, \<open>for (; i < n; i++)\<close>, by the number of iterations left;
  it returns the pipe and the final \<open>i\<close>.
\<close>

fun write_loop :: "(u32 \<Rightarrow> byte) \<Rightarrow> nat \<Rightarrow> pipe_t \<Rightarrow> u32 \<Rightarrow> int \<Rightarrow> fault + (pipe_t \<times> int)" where
  "write_loop m 0 p x i = Inr (p, i)"
| "write_loop m (Suc r) p x i =
     (if full p then Inr (p, i)
      else thenR (c_rem (rear p + 1) (size_pipe p))
        (\<lambda>r1. if 0 \<le> r1 \<and> r1 < int (length (buffer p))
               then thenR (c_rem (r1 + 1) (size_pipe p))
                      (\<lambda>r2. let p1 = p\<lparr>rear := r1, buffer := (buffer p)[nat r1 := m x]\<rparr>;
                                 p2 = (if front p1 = r2 then p1\<lparr>full := True\<rparr> else p1)
                             in write_loop m r p2 (x + 1) (i + 1))
               else Inl OutOfBounds))"

text \<open>The loop of \<open>read\<close> on a pipe; it returns the pipe, the user memory and the final \<open>i\<close>.\<close>

fun read_loop ::
  "nat \<Rightarrow> pipe_t \<Rightarrow> (u32 \<Rightarrow> byte) \<Rightarrow> u32 \<Rightarrow> int \<Rightarrow> fault + (pipe_t \<times> (u32 \<Rightarrow> byte) \<times> int)" where
  "read_loop 0 p m x i = Inr (p, m, i)"
| "read_loop (Suc r) p m x i =
     thenR (c_rem (rear p + 1) (size_pipe p))
       (\<lambda>e. if front p = e \<and> \<not> full p then Inr (p, m, i)
             else if 0 \<le> front p \<and> front p < int (length (buffer p))
             then thenR (c_rem (front p + 1) (size_pipe p))
                    (\<lambda>f1. read_loop r (p\<lparr>front := f1, full := False\<rparr>)
                             (m(x + word_of_int i := buffer p ! nat (front p))) x (i + 1))
             else Inl OutOfBounds)"

definition sys_write :: "config \<Rightarrow> kstate \<Rightarrow> fault + kstate" where
  "sys_write cfg s =
     (let fd = sint (gpr (uctx s) 0); x = gpr (uctx s) 1; n = sint (gpr (uctx s) 2) in
      if fd < 0
      then Inr (set_gpr0 (- 1) (print (CHR 0x0A # ''ERR: cannot address negative fd'') 32 s))
      else if fd = 0 then Inr (set_gpr0 0 s)
      else if fd = 1
      then Inr (set_gpr0 (word_of_int n)
                  (foldl (\<lambda>t i. PL011_putc (char_of (unat (mem s (x + of_nat i)))) t) s [0..<nat n]))
      else if fd = 2
      then Inr (set_gpr0 (- 1) (print (CHR 0x0A # ''write error'') 12 s))
      else thenR (get_file s fd)
             (\<lambda>f. if 0 < n
                   then thenR (get_pipe s (file_ptr f))
                          (\<lambda>p. thenR (write_loop (mem s) (nat n) p x 0)
                             (\<lambda>(p', i). Inr (set_gpr0 (word_of_int i) (put_pipe (file_ptr f) p' s))))
                   else Inr (set_gpr0 0 s)))"

definition sys_read :: "config \<Rightarrow> kstate \<Rightarrow> fault + kstate" where
  "sys_read cfg s =
     (let fd = sint (gpr (uctx s) 0); x = gpr (uctx s) 1; n = sint (gpr (uctx s) 2) in
      if fd < 0
      then Inr (set_gpr0 (- 1) (print (CHR 0x0A # ''ERR: cannot address negative fd'') 32 s))
      else if fd = 0 then Inr (set_gpr0 0 (print (CHR 0x0A # ''read stdin'') 11 s))
      else if fd = 1 then Inr (set_gpr0 0 (print (CHR 0x0A # ''read stdout'') 12 s))
      else if fd = 2 then Inr (set_gpr0 (- 1) (print (CHR 0x0A # ''read error'') 11 s))
      else thenR (get_file s fd)
             (\<lambda>f. if 0 < n
                   then thenR (get_pipe s (file_ptr f))
                          (\<lambda>p. thenR (read_loop (nat n) p (mem s) x 0)
                             (\<lambda>(p', m', i).
                                Inr (set_gpr0 (word_of_int i)
                                       (put_pipe (file_ptr f) p' (s\<lparr>mem := m'\<rparr>)))))
                   else Inr (set_gpr0 0 s)))"

text \<open>The search of \<open>fork\<close> for a terminated slot, from index 1, with its \<open>break\<close>.\<close>

fun find_terminated :: "kstate \<Rightarrow> nat list \<Rightarrow> int \<Rightarrow> fault + int" where
  "find_terminated s [] iNew = Inr iNew"
| "find_terminated s (i # is) iNew =
     thenR (get_proc s (int i))
       (\<lambda>q. if status q = STATUS_TERMINATED then Inr (int i) else find_terminated s is iNew)"

text \<open>\<open>memcpy(dst, src, n)\<close> on the user memory, whose addresses wrap at \<open>2^32\<close>.\<close>

definition memcpy :: "(u32 \<Rightarrow> byte) \<Rightarrow> u32 \<Rightarrow> u32 \<Rightarrow> u32 \<Rightarrow> (u32 \<Rightarrow> byte)" where
  "memcpy m dst src n = (\<lambda>a. if a - dst < n then m (src + (a - dst)) else m a)"

text \<open>
  The body of the loop of \<open>fork\<close> that copies the parent's descriptor table into slot \<open>iNew\<close>
  and counts the new references, and the two return values written at the end.
\<close>

definition fork_body :: "int \<Rightarrow> nat \<Rightarrow> kstate \<Rightarrow> fault + kstate" where
  "fork_body iNew i t =
     thenR (get_executing t)
       (\<lambda>(ei, pi). thenR (get_fd pi i)
          (\<lambda>fd. thenR (set_proc_fd t iNew i fd)
             (\<lambda>t1. if fd \<ge> 0
                    then set_file t1 fd (\<lambda>f. f\<lparr>refCount := refCount f + 1\<rparr>)
                    else Inr t1)))"

definition fork_post :: "int \<Rightarrow> kstate \<Rightarrow> fault + kstate" where
  "fork_post iNew s9 =
     thenR (get_proc s9 iNew)
       (\<lambda>c9. set_proc (set_gpr0 (word_of_int (pid c9)) s9) iNew
                (\<lambda>q. q\<lparr>ctx := (ctx q)\<lparr>gpr := (gpr (ctx q))(0 := 0)\<rparr>\<rparr>))"

definition sys_fork :: "config \<Rightarrow> kstate \<Rightarrow> fault + kstate" where
  "sys_fork cfg s =
     (let s0 = PL011_putc CHR ''F'' s in
      if currentProcesses s0 \<ge> int (MAX_PROCS cfg)
      then Inr (set_gpr0 (- 1) (print (CHR 0x0A # ''ERR: process table full'') 24 s0))
      else
        let s1 = s0\<lparr>currentProcesses := currentProcesses s0 + 1\<rparr> in
        thenR (find_terminated s1 [1..<MAX_PROCS cfg] (currentProcesses s0))
        (\<lambda>iNew. thenR (set_proc s1 iNew memset_pcb)
        (\<lambda>s2. thenR (set_proc s2 iNew
                  (\<lambda>q. q\<lparr>pid := iNew, status := STATUS_READY,
                          tos := tos_p cfg - word_of_int ((iNew - 1) * 0x2000)\<rparr>))
        (\<lambda>s3. thenR (set_proc s3 iNew (\<lambda>q. q\<lparr>ctx := uctx s3\<rparr>))
        (\<lambda>s4. thenR (get_executing s4)
        (\<lambda>(e, pe).
           let stackHeight = tos pe - sp (ctx pe) in
           thenR (set_proc s4 iNew (\<lambda>q. q\<lparr>ctx := (ctx q)\<lparr>sp := tos q - stackHeight\<rparr>\<rparr>))
        (\<lambda>s5. thenR (get_proc s5 iNew)
        (\<lambda>c. let s6 = s5\<lparr>mem := memcpy (mem s5) (sp (ctx c)) (sp (uctx s5)) stackHeight\<rparr> in
           thenR (set_proc s6 iNew (\<lambda>q. q\<lparr>lastExec := time s6\<rparr>))
        (\<lambda>s7. thenR (get_executing s7)
        (\<lambda>(e7, pe7). thenR (set_proc s7 iNew (\<lambda>q. q\<lparr>niceness := niceness pe7\<rparr>))
        (\<lambda>s8. thenR (for_loop [0..<MAX_FDS cfg] (fork_body iNew) s8)
                 (fork_post iNew))))))))))))"

text \<open>
  \<open>exit\<close>: what the handler does before it calls \<open>schedule\<close> (the descriptors of the
  executing process are closed, its status is set and the counter is decremented), and the
  whole call.
\<close>

definition exit_teardown :: "config \<Rightarrow> kstate \<Rightarrow> fault + kstate" where
  "exit_teardown cfg s =
     thenR (for_loop [0..<MAX_FDS cfg]
              (\<lambda>i t. thenR (get_executing t)
                 (\<lambda>(e, pe). thenR (get_fd pe i)
                    (\<lambda>fd. if fd \<ge> 0
                          then thenR (close_fd cfg t fd (pid pe)) (\<lambda>(t1, r). Inr t1)
                          else Inr t)))
              (PL011_putc CHR ''X'' s))
     (\<lambda>s1. thenR (get_executing s1)
     (\<lambda>(e, pe). thenR (set_proc s1 (int e) (\<lambda>q. q\<lparr>status := STATUS_TERMINATED\<rparr>))
     (\<lambda>s2. Inr (s2\<lparr>currentProcesses := currentProcesses s2 - 1\<rparr>))))"

definition sys_exit :: "config \<Rightarrow> kstate \<Rightarrow> fault + kstate" where
  "sys_exit cfg s = thenR (exit_teardown cfg s) (schedule cfg)"

definition sys_exec :: "config \<Rightarrow> kstate \<Rightarrow> fault + kstate" where
  "sys_exec cfg s =
     (let s0 = PL011_putc CHR ''E'' s;
          s1 = s0\<lparr>uctx := (uctx s0)\<lparr>pc := gpr (uctx s0) 0\<rparr>\<rparr>
      in thenR (get_executing s1) (\<lambda>(e, pe). Inr (s1\<lparr>uctx := (uctx s1)\<lparr>sp := tos pe\<rparr>\<rparr>)))"

definition sys_kill :: "config \<Rightarrow> kstate \<Rightarrow> fault + kstate" where
  "sys_kill cfg s =
     (let s0 = PL011_putc CHR ''K'' s; pd = sint (gpr (uctx s0) 0) in
      thenR (for_loop [0..<MAX_FDS cfg]
               (\<lambda>i t. thenR (get_proc t pd)
                  (\<lambda>q. thenR (get_fd q i)
                     (\<lambda>fd. if fd \<ge> 0
                           then thenR (close_fd cfg t fd pd) (\<lambda>(t1, r). Inr t1)
                           else Inr t)))
               s0)
      (\<lambda>s1. thenR (set_proc s1 pd (\<lambda>q. q\<lparr>status := STATUS_TERMINATED\<rparr>))
      (\<lambda>s2. Inr (set_gpr0 0 (s2\<lparr>currentProcesses := currentProcesses s2 - 1\<rparr>)))))"

definition sys_nice :: "config \<Rightarrow> kstate \<Rightarrow> fault + kstate" where
  "sys_nice cfg s =
     (let s0 = PL011_putc CHR ''N'' s; pd = sint (gpr (uctx s0) 0); x0 = sint (gpr (uctx s0) 1);
          x = (if x0 < - 19 then - 19 else if x0 > 20 then 20 else x0)
      in thenR (set_proc s0 pd (\<lambda>q. q\<lparr>niceness := x\<rparr>))
           (\<lambda>s1. Inr (set_gpr0 (word_of_int x) s1)))"

text \<open>
  \<open>memcpy(pipedes, pipefds, 2 * sizeof(int))\<close> stores the two descriptors as 32-bit integers in
  two's complement, least significant byte first; \<open>load_int\<close> is the user's read of such an
  integer.
\<close>

definition int_bytes :: "int \<Rightarrow> byte list" where
  "int_bytes v = map (\<lambda>k. word_of_int (v div 256 ^ k)) [0..<4]"

definition store_bytes :: "(u32 \<Rightarrow> byte) \<Rightarrow> u32 \<Rightarrow> byte list \<Rightarrow> (u32 \<Rightarrow> byte)" where
  "store_bytes m a bs = (\<lambda>b. if unat (b - a) < length bs then bs ! unat (b - a) else m b)"

definition load_int :: "(u32 \<Rightarrow> byte) \<Rightarrow> u32 \<Rightarrow> int" where
  "load_int m a =
     sint (word_of_int (uint (m a) + 256 * uint (m (a + 1)) + 65536 * uint (m (a + 2))
                        + 16777216 * uint (m (a + 3))) :: u32)"

definition new_pipe :: "config \<Rightarrow> pipe_t" where
  "new_pipe cfg =
     \<lparr>front = 0, rear = - 1, size_pipe = int (BUF_SIZE cfg), full = False,
      buffer = replicate (BUF_SIZE cfg) 0\<rparr>"

definition sys_pipe :: "config \<Rightarrow> kstate \<Rightarrow> fault + kstate" where
  "sys_pipe cfg s =
     (let pipedes = gpr (uctx s) 0; (s0, p) = malloc (new_pipe cfg) s in
      thenR (open_fd cfg s0 p RDONLY)
      (\<lambda>(s1, fd_read). thenR (open_fd cfg s1 p WRONLY)
      (\<lambda>(s2, fd_write).
         if fd_read = - 1 \<or> fd_write = - 1
         then
           (let s3 = print (CHR 0x0A # ''pipe failed'') 12 s2 in
            thenR (get_executing s3)
            (\<lambda>(e, pe).
               thenR (if fd_read \<ge> 0 then close_fd cfg s3 fd_read (pid pe) else Inr (s3, 0))
               (\<lambda>(s4, r4).
                  thenR (if fd_write \<ge> 0 then close_fd cfg s4 fd_write (pid pe) else Inr (s4, 0))
                  (\<lambda>(s5, r5). Inr (set_gpr0 (- 1) s5)))))
         else Inr (set_gpr0 0
                     (s2\<lparr>mem := store_bytes (mem s2) pipedes
                                   (int_bytes fd_read @ int_bytes fd_write)\<rparr>)))))"

definition sys_close :: "config \<Rightarrow> kstate \<Rightarrow> fault + kstate" where
  "sys_close cfg s =
     (let fd = sint (gpr (uctx s) 0) in
      thenR (get_executing s)
      (\<lambda>(e, pe). thenR (close_fd cfg s fd (pid pe))
      (\<lambda>(s1, r). Inr (set_gpr0 (word_of_int r) s1))))"

definition hilevel_handler_svc :: "config \<Rightarrow> kstate \<Rightarrow> u32 \<Rightarrow> fault + kstate" where
  "hilevel_handler_svc cfg s ident =
     (if ident = 0x00 then schedule cfg s
      else if ident = 0x01 then sys_write cfg s
      else if ident = 0x02 then sys_read cfg s
      else if ident = 0x03 then sys_fork cfg s
      else if ident = 0x04 then sys_exit cfg s
      else if ident = 0x05 then sys_exec cfg s
      else if ident = 0x06 then sys_kill cfg s
      else if ident = 0x07 then sys_nice cfg s
      else if ident = 0x08 then sys_pipe cfg s
      else if ident = 0x09 then sys_close cfg s
      else Inr s)"

text \<open>A configuration and a power-on state used for the concrete runs below.\<close>

definition cfg0 :: config where
  "cfg0 = \<lparr>MAX_PROCS = 4, MAX_FDS = 6, BUF_SIZE = 8, GIC_SOURCE_TIMER0 = 36,
           tos_console = 0x70100000, tos_p = 0x70200000, main_console = 0x70010000\<rparr>"

definition zero_mem :: "u32 \<Rightarrow> byte" where
  "zero_mem a = 0"

definition boot0 :: kstate where
  "boot0 = boot cfg0 zero_ctx zero_mem"

text \<open>The shape of the tables that the reset handler keeps while it runs.\<close>

definition rst_shape :: "config \<Rightarrow> string \<Rightarrow> kstate \<Rightarrow> bool" where
  "rst_shape cfg out t \<longleftrightarrow>
     length (procTab t) = MAX_PROCS cfg \<and> length (openFileTab t) = MAX_FDS cfg \<and>
     (\<forall>i < length (procTab t). length (fdTab (procTab t ! i)) = MAX_FDS cfg) \<and> uart t = out"

section \<open>Notions used in the statements about the scheduler\<close>

text \<open>
  \<open>is_ready\<close> is the test \<open>procTab[i].status == STATUS_READY\<close> of the selection loop and
  \<open>score\<close> the value it gives to \<open>ipriority\<close>. \<open>sched_ok\<close> collects what \<open>schedule\<close> needs
  to run without a fault: the table has \<open>MAX_PROCS\<close> slots, \<open>executing\<close> points to slot \<open>e\<close>, whose
  \<open>pid\<close> is its index, and the score of every READY slot fits an \<open>int\<close>.
\<close>

definition is_ready :: "kstate \<Rightarrow> nat \<Rightarrow> bool" where
  "is_ready s i \<longleftrightarrow> status (procTab s ! i) = STATUS_READY"

definition score :: "kstate \<Rightarrow> nat \<Rightarrow> int" where
  "score s i = ipriority (time s) (procTab s ! i)"

definition sched_ok :: "config \<Rightarrow> kstate \<Rightarrow> nat \<Rightarrow> bool" where
  "sched_ok cfg s e \<longleftrightarrow>
     length (procTab s) = MAX_PROCS cfg \<and> executing s = Some e \<and> e < MAX_PROCS cfg \<and>
     pid (procTab s ! e) = int e \<and>
     (\<forall>i < MAX_PROCS cfg. is_ready s i \<longrightarrow> score s i \<le> INT_MAX)"

text \<open>The characters \<open>printPID\<close> sends.\<close>

definition pid_digits :: "int \<Rightarrow> string" where
  "pid_digits p =
     (let units = sgn p * (\<bar>p\<bar> mod 10)
      in (if p \<ge> 10 then [char_of (48 + (p - units) div 10)] else []) @ [char_of (48 + units)])"

text \<open>
  The process table after \<open>schedule\<close> has chosen slot \<open>j\<close> while slot \<open>e\<close> was executing:
  the context is saved into slot \<open>e\<close>, its \<open>lastExec\<close> is stamped, an EXECUTING \<open>e\<close> becomes
  READY and \<open>j\<close> becomes EXECUTING.
\<close>

definition sched_tab :: "kstate \<Rightarrow> nat \<Rightarrow> nat \<Rightarrow> pcb_t list" where
  "sched_tab s e j =
     (let t1 = (procTab s)[e := (procTab s ! e)
                  \<lparr>ctx := uctx s, lastExec := time s,
                   status := (if status (procTab s ! e) = STATUS_EXECUTING then STATUS_READY
                              else status (procTab s ! e))\<rparr>]
      in t1[j := (t1 ! j)\<lparr>status := STATUS_EXECUTING\<rparr>])"

section \<open>Concrete states\<close>

definition mk_pcb :: "int \<Rightarrow> status_t \<Rightarrow> u32 \<Rightarrow> int \<Rightarrow> int list \<Rightarrow> pcb_t" where
  "mk_pcb p st le nc fds =
     \<lparr>pid = p, status = st, tos = 0x70200000 - word_of_int ((p - 1) * 0x2000), ctx = zero_ctx,
      lastExec = le, niceness = nc, fdTab = fds\<rparr>"

definition no_fds :: "int list" where
  "no_fds = [- 1, - 1, - 1, - 1, - 1, - 1]"

definition std_files :: "fd_t list" where
  "std_files =
     [\<lparr>file_ptr = 0, flag = RDONLY, refCount = 1\<rparr>, \<lparr>file_ptr = 0, flag = WRONLY, refCount = 1\<rparr>,
      \<lparr>file_ptr = 0, flag = WRONLY, refCount = 1\<rparr>, \<lparr>file_ptr = 0, flag = RDONLY, refCount = 0\<rparr>,
      \<lparr>file_ptr = 0, flag = RDONLY, refCount = 0\<rparr>, \<lparr>file_ptr = 0, flag = RDONLY, refCount = 0\<rparr>]"

text \<open>
  Two READY processes, slots 1 and 2, with equal scores, while slot 0 executes: the state after
  the console has forked twice within one tick.
\<close>

definition tie_state :: kstate where
  "tie_state =
     \<lparr>currentProcesses = 3, time = 1,
      procTab = [mk_pcb 0 STATUS_EXECUTING 0 0 no_fds, mk_pcb 1 STATUS_READY 1 0 no_fds,
                 mk_pcb 2 STATUS_READY 1 0 no_fds, zero_pcb 6],
      openFileTab = std_files, executing = Some 0, uctx = zero_ctx, uart = [], mem = zero_mem,
      heap = []\<rparr>"

text \<open>
  One READY process, slot 1, of niceness 0 that has just been created, while the console in
  slot 0 executes with niceness 20.
\<close>

definition nice_state :: kstate where
  "nice_state =
     \<lparr>currentProcesses = 2, time = 1,
      procTab = [mk_pcb 0 STATUS_EXECUTING 0 20 no_fds, mk_pcb 1 STATUS_READY 1 0 no_fds,
                 zero_pcb 6, zero_pcb 6],
      openFileTab = std_files, executing = Some 0, uctx = zero_ctx, uart = [], mem = zero_mem,
      heap = []\<rparr>"

text \<open>One READY process, slot 1, while the console in slot 0 executes with niceness 0.\<close>

definition single_state :: kstate where
  "single_state =
     \<lparr>currentProcesses = 2, time = 1,
      procTab = [mk_pcb 0 STATUS_EXECUTING 0 0 no_fds, mk_pcb 1 STATUS_READY 1 0 no_fds,
                 zero_pcb 6, zero_pcb 6],
      openFileTab = std_files, executing = Some 0, uctx = zero_ctx, uart = [], mem = zero_mem,
      heap = []\<rparr>"

section \<open>Notions used in the statements about descriptors\<close>

text \<open>
  \<open>wipe_fd\<close> is the effect of the first loop of \<open>close_fd\<close> on a descriptor table,
  \<open>wipe_proc\<close> stores a descriptor table into a slot, and \<open>close_result\<close> is the state
  \<open>close_fd\<close> leaves for a descriptor within range.
\<close>

definition wipe_fd :: "int \<Rightarrow> int list \<Rightarrow> int list" where
  "wipe_fd fd fds = map (\<lambda>v. if v = fd then - 1 else v) fds"

definition wipe_proc :: "kstate \<Rightarrow> int \<Rightarrow> int list \<Rightarrow> kstate" where
  "wipe_proc s pd fds = s\<lparr>procTab := (procTab s)[nat pd := (procTab s ! nat pd)\<lparr>fdTab := fds\<rparr>]\<rparr>"

definition close_result :: "kstate \<Rightarrow> int \<Rightarrow> int \<Rightarrow> fault + kstate" where
  "close_result s fd pd =
     (let f = openFileTab s ! nat fd;
          s2 = (wipe_proc s pd (wipe_fd fd (fdTab (procTab s ! nat pd))))
                 \<lparr>openFileTab := (openFileTab s)[nat fd := f\<lparr>refCount := refCount f - 1\<rparr>]\<rparr>
      in if refCount f - 1 \<le> 0 then free (file_ptr f) s2 else Inr s2)"

text \<open>
  \<open>can_free s a\<close>: the call \<open>free(a)\<close> is defined, \<open>a\<close> being null or the address of a pipe
  that has not been released. \<open>released a h\<close> is the store \<open>h\<close> after such a call.
\<close>

definition can_free :: "kstate \<Rightarrow> nat \<Rightarrow> bool" where
  "can_free s a \<longleftrightarrow> a = 0 \<or> (a \<le> length (heap s) \<and> heap s ! (a - 1) \<noteq> None)"

definition released :: "nat \<Rightarrow> pipe_t option list \<Rightarrow> pipe_t option list" where
  "released a h = (if a = 0 then h else h[a - 1 := None])"

text \<open>
  What \<open>close\<close> needs to run without a fault: \<open>executing\<close> points to a slot whose \<open>pid\<close>
  is its index, and the descriptor tables have \<open>MAX_FDS\<close> entries. \<open>free_ok s fd\<close>: if closing
  \<open>fd\<close> brings its count to zero or less, so that \<open>close_fd\<close> passes the entry's pointer to
  \<open>free\<close>, that call is defined.
\<close>

definition close_ok :: "config \<Rightarrow> kstate \<Rightarrow> bool" where
  "close_ok cfg s \<longleftrightarrow>
     (case executing s of
        None \<Rightarrow> False
      | Some e \<Rightarrow> e < length (procTab s) \<and> pid (procTab s ! e) = int e \<and>
                  length (fdTab (procTab s ! e)) = MAX_FDS cfg) \<and>
     length (openFileTab s) = MAX_FDS cfg"

definition free_ok :: "kstate \<Rightarrow> int \<Rightarrow> bool" where
  "free_ok s fd \<longleftrightarrow>
     refCount (openFileTab s ! nat fd) \<le> 1 \<longrightarrow> can_free s (file_ptr (openFileTab s ! nat fd))"

text \<open>All four slots live: the process table is full.\<close>

definition full_state :: kstate where
  "full_state =
     \<lparr>currentProcesses = 4, time = 1,
      procTab = [mk_pcb 0 STATUS_EXECUTING 0 0 no_fds, mk_pcb 1 STATUS_READY 1 0 no_fds,
                 mk_pcb 2 STATUS_READY 1 0 no_fds, mk_pcb 3 STATUS_READY 1 0 no_fds],
      openFileTab = std_files, executing = Some 0, uctx = zero_ctx, uart = [], mem = zero_mem,
      heap = []\<rparr>"

text \<open>The saved context of a call with arguments \<open>a0\<close>, \<open>a1\<close>, \<open>a2\<close> in \<open>gpr[0..2]\<close>.\<close>

definition call_ctx :: "u32 \<Rightarrow> u32 \<Rightarrow> u32 \<Rightarrow> ctx_t" where
  "call_ctx a0 a1 a2 = zero_ctx\<lparr>gpr := (\<lambda>i. if i = 0 then a0 else if i = 1 then a1 else if i = 2 then a2 else 0)\<rparr>"

text \<open>
  The state \<open>single_state\<close> entered with a context at the trap that differs from the contexts
  saved in the process table.
\<close>

definition yield_state :: kstate where
  "yield_state = single_state\<lparr>uctx := call_ctx 7 0 0\<rparr>"

text \<open>The user program puts \<open>a0\<close> into \<open>gpr[0]\<close> before it traps.\<close>

definition user_call :: "u32 \<Rightarrow> kstate \<Rightarrow> kstate" where
  "user_call a0 s = s\<lparr>uctx := (uctx s)\<lparr>gpr := (gpr (uctx s))(0 := a0)\<rparr>\<rparr>"

text \<open>The console calls \<open>close(3)\<close> while entry 3 of the open-file table is free.\<close>

definition close_state :: kstate where
  "close_state = single_state\<lparr>uctx := call_ctx 3 0 0\<rparr>"

text \<open>The value a call returns to the user, read as a C \<open>int\<close>.\<close>

definition ret_val :: "kstate \<Rightarrow> int" where
  "ret_val s = sint (gpr (uctx s) 0)"

section \<open>Notions used in the statements about pipes\<close>

text \<open>
  \<open>pipe_wf\<close>: the indices of a pipe lie within its buffer, whose length is \<open>size\<close>.
  \<open>pipe_holds p c\<close>: the pipe holds \<open>c\<close> bytes, the oldest at \<open>front\<close>. With \<open>c = 0\<close> it is
  the source's test for an empty pipe, \<open>front == (rear + 1) % size && !full\<close>.
\<close>

definition pipe_wf :: "pipe_t \<Rightarrow> bool" where
  "pipe_wf p \<longleftrightarrow>
     0 < size_pipe p \<and> int (length (buffer p)) = size_pipe p \<and>
     0 \<le> front p \<and> front p < size_pipe p \<and> - 1 \<le> rear p \<and> rear p < size_pipe p"

definition pipe_holds :: "pipe_t \<Rightarrow> int \<Rightarrow> bool" where
  "pipe_holds p c \<longleftrightarrow>
     pipe_wf p \<and> 0 \<le> c \<and> c \<le> size_pipe p \<and>
     (rear p + 1) mod size_pipe p = (front p + c) mod size_pipe p \<and>
     (full p \<longleftrightarrow> c = size_pipe p)"

text \<open>
  \<open>pipe_at s fd a\<close>: descriptor \<open>fd\<close> is an entry of the open-file table beyond the reserved
  ones, representable as a C \<open>int\<close>, and its \<open>file\<close> pointer is \<open>a\<close>.
\<close>

definition pipe_at :: "kstate \<Rightarrow> int \<Rightarrow> nat \<Rightarrow> bool" where
  "pipe_at s fd a \<longleftrightarrow>
     3 \<le> fd \<and> fd < int (length (openFileTab s)) \<and> fd < 2 ^ 31 \<and>
     file_ptr (openFileTab s ! nat fd) = a"

text \<open>
  The console holds both ends of a pipe: entry 3 is the read end and entry 4 the write end of
  the pipe at address 1, which is empty.
\<close>

definition pipe_files :: "fd_t list" where
  "pipe_files =
     [\<lparr>file_ptr = 0, flag = RDONLY, refCount = 1\<rparr>, \<lparr>file_ptr = 0, flag = WRONLY, refCount = 1\<rparr>,
      \<lparr>file_ptr = 0, flag = WRONLY, refCount = 1\<rparr>, \<lparr>file_ptr = 1, flag = RDONLY, refCount = 1\<rparr>,
      \<lparr>file_ptr = 1, flag = WRONLY, refCount = 1\<rparr>, \<lparr>file_ptr = 0, flag = RDONLY, refCount = 0\<rparr>]"

definition pipe_state :: kstate where
  "pipe_state =
     \<lparr>currentProcesses = 2, time = 1,
      procTab = [mk_pcb 0 STATUS_EXECUTING 0 0 [3, 4, - 1, - 1, - 1, - 1],
                 mk_pcb 1 STATUS_READY 1 0 no_fds, zero_pcb 6, zero_pcb 6],
      openFileTab = pipe_files, executing = Some 0, uctx = call_ctx 4 0x200 8, uart = [],
      mem = zero_mem, heap = [Some (new_pipe cfg0)]\<rparr>"

text \<open>
  The console, holding both ends of a pipe, calls \<open>close(3)\<close> and then \<open>close(4)\<close>, or
  \<open>close(3)\<close> a second time.
\<close>

definition close_twice_run :: "fault + kstate" where
  "close_twice_run =
     thenR (hilevel_handler_svc cfg0 (user_call 3 pipe_state) 0x09)
       (\<lambda>s. hilevel_handler_svc cfg0 (user_call 4 s) 0x09)"

definition close_again_run :: "fault + kstate" where
  "close_again_run =
     thenR (hilevel_handler_svc cfg0 (user_call 3 pipe_state) 0x09)
       (\<lambda>s. hilevel_handler_svc cfg0 (user_call 3 s) 0x09)"

text \<open>The console calls \<open>pipe\<close> with the output pair at address \<open>0x100\<close>.\<close>

definition pipe_call_state :: kstate where
  "pipe_call_state = single_state\<lparr>uctx := call_ctx 0x100 0 0\<rparr>"

text \<open>
  An empty pipe that has carried five bytes: \<open>front\<close> has advanced to 5 and \<open>rear\<close> to 4, so
  that five more bytes wrap around the end of the buffer of eight.
\<close>

definition drained_pipe :: pipe_t where
  "drained_pipe = (new_pipe cfg0)\<lparr>front := 5, rear := 4\<rparr>"

text \<open>A user memory holding the bytes of \<open>HELLO\<close> at address \<open>0x200\<close>.\<close>

definition hello_mem :: "u32 \<Rightarrow> byte" where
  "hello_mem = store_bytes zero_mem 0x200 [72, 69, 76, 76, 79]"

section \<open>Notions used in the statements about process teardown\<close>

text \<open>
  \<open>only_fds n s t\<close>: state \<open>t\<close> differs from \<open>s\<close> at most in the descriptor table of slot \<open>n\<close>,
  in the contents of the open-file table and in the store of pipes.
\<close>

definition only_fds :: "nat \<Rightarrow> kstate \<Rightarrow> kstate \<Rightarrow> bool" where
  "only_fds n s t \<longleftrightarrow>
     currentProcesses t = currentProcesses s \<and> time t = time s \<and> executing t = executing s \<and>
     uctx t = uctx s \<and> uart t = uart s \<and> mem t = mem s \<and>
     length (procTab t) = length (procTab s) \<and> length (openFileTab t) = length (openFileTab s) \<and>
     (\<forall>i < length (procTab s). i \<noteq> n \<longrightarrow> procTab t ! i = procTab s ! i) \<and>
     (n < length (procTab s) \<longrightarrow>
        (\<exists>fds. procTab t ! n = (procTab s ! n)\<lparr>fdTab := fds\<rparr> \<and>
               length fds = length (fdTab (procTab s ! n))))"

text \<open>
  \<open>held_fds\<close>: the descriptors within range that slot \<open>pd\<close> holds. \<open>last_refs s vs\<close>: those of
  \<open>vs\<close> whose count one close brings to zero or less, so that \<open>close_fd\<close> passes the pointer
  of the entry, \<open>ptr_of\<close>, to \<open>free\<close>.
\<close>

definition held_fds :: "config \<Rightarrow> kstate \<Rightarrow> int \<Rightarrow> int set" where
  "held_fds cfg s pd = {v \<in> set (fdTab (procTab s ! nat pd)). 0 \<le> v \<and> v < int (MAX_FDS cfg)}"

definition last_refs :: "kstate \<Rightarrow> int set \<Rightarrow> int set" where
  "last_refs s vs = {v \<in> vs. refCount (openFileTab s ! nat v) \<le> 1}"

definition ptr_of :: "kstate \<Rightarrow> int \<Rightarrow> nat" where
  "ptr_of s v = file_ptr (openFileTab s ! nat v)"

text \<open>
  What \<open>kill\<close> needs to run without a fault: \<open>pid\<close> indexes the process table, the
  target's descriptor table and the open-file table have \<open>MAX_FDS\<close> entries, and every call
  of \<open>free\<close> is defined: the pointers released are null or pipes not yet released, and no
  pipe is released through two entries.
\<close>

definition kill_ok :: "config \<Rightarrow> kstate \<Rightarrow> int \<Rightarrow> bool" where
  "kill_ok cfg s pd \<longleftrightarrow>
     0 \<le> pd \<and> pd < int (length (procTab s)) \<and>
     length (fdTab (procTab s ! nat pd)) = MAX_FDS cfg \<and> length (openFileTab s) = MAX_FDS cfg \<and>
     (\<forall>v \<in> last_refs s (held_fds cfg s pd). can_free s (ptr_of s v)) \<and>
     (\<forall>v \<in> last_refs s (held_fds cfg s pd). \<forall>w \<in> last_refs s (held_fds cfg s pd).
        v \<noteq> w \<and> ptr_of s v \<noteq> 0 \<longrightarrow> ptr_of s v \<noteq> ptr_of s w)"

text \<open>
  The descriptors within range among the first \<open>i\<close> slots of a descriptor table, and the
  state of the loop of \<open>kill\<close> before it visits slot \<open>i\<close>: these descriptors have been closed.
\<close>

definition closed_fds :: "nat \<Rightarrow> nat \<Rightarrow> int list \<Rightarrow> int set" where
  "closed_fds M i fds = {v \<in> set (take i fds). 0 \<le> v \<and> v < int M}"

definition kill_inv :: "config \<Rightarrow> kstate \<Rightarrow> int \<Rightarrow> nat \<Rightarrow> kstate \<Rightarrow> bool" where
  "kill_inv cfg s pd i t \<longleftrightarrow>
     only_fds (nat pd) s t \<and>
     fdTab (procTab t ! nat pd)
       = map (\<lambda>v. if v \<in> closed_fds (MAX_FDS cfg) i (fdTab (procTab s ! nat pd)) then - 1 else v)
           (fdTab (procTab s ! nat pd)) \<and>
     (\<forall>f < MAX_FDS cfg.
        openFileTab t ! f
          = (openFileTab s ! f)
              \<lparr>refCount := refCount (openFileTab s ! f)
                 - (if int f \<in> closed_fds (MAX_FDS cfg) i (fdTab (procTab s ! nat pd)) then 1 else 0)\<rparr>) \<and>
     length (heap t) = length (heap s) \<and>
     (\<forall>a < length (heap s).
        heap t ! a
          = (if Suc a \<in> ptr_of s ` last_refs s (closed_fds (MAX_FDS cfg) i (fdTab (procTab s ! nat pd)))
             then None else heap s ! a))"

text \<open>
  The console holds both ends of a pipe, entries 3 and 4; the process in slot 1 holds the read
  end as well, so that entry 3 has two references. The console calls \<open>kill(0, 0)\<close> on itself.
\<close>

definition shared_files :: "fd_t list" where
  "shared_files =
     [\<lparr>file_ptr = 0, flag = RDONLY, refCount = 1\<rparr>, \<lparr>file_ptr = 0, flag = WRONLY, refCount = 1\<rparr>,
      \<lparr>file_ptr = 0, flag = WRONLY, refCount = 1\<rparr>, \<lparr>file_ptr = 1, flag = RDONLY, refCount = 2\<rparr>,
      \<lparr>file_ptr = 1, flag = WRONLY, refCount = 1\<rparr>, \<lparr>file_ptr = 0, flag = RDONLY, refCount = 0\<rparr>]"

definition kill_self_state :: kstate where
  "kill_self_state =
     \<lparr>currentProcesses = 2, time = 1,
      procTab = [mk_pcb 0 STATUS_EXECUTING 0 0 [3, 4, - 1, - 1, - 1, - 1],
                 mk_pcb 1 STATUS_READY 1 0 [3, - 1, - 1, - 1, - 1, - 1], zero_pcb 6, zero_pcb 6],
      openFileTab = shared_files, executing = Some 0, uctx = call_ctx 0 0 0, uart = [],
      mem = zero_mem, heap = [Some (new_pipe cfg0)]\<rparr>"

text \<open>The console calls \<open>kill(4, 0)\<close>; the process table has the slots 0 to 3.\<close>

definition kill_range_state :: kstate where
  "kill_range_state = single_state\<lparr>uctx := call_ctx 4 0 0\<rparr>"

section \<open>Notions used in the statements about fork\<close>

text \<open>
  For a fork by the process in slot \<open>e\<close> into slot \<open>iNew\<close>: the child's top of stack, the
  \<open>stackHeight\<close> the code computes from \<open>executing->tos\<close> and the \<open>sp\<close> saved in
  \<open>executing->ctx\<close> (read after slot \<open>iNew\<close> has been cleared and given the parent's context,
  which matters when \<open>iNew\<close> is the executing slot itself), the child's stack pointer, and the
  state before the loop that copies the descriptor table.
\<close>

definition fork_tos :: "config \<Rightarrow> int \<Rightarrow> u32" where
  "fork_tos cfg iNew = tos_p cfg - word_of_int ((iNew - 1) * 0x2000)"

definition fork_height :: "config \<Rightarrow> kstate \<Rightarrow> int \<Rightarrow> nat \<Rightarrow> u32" where
  "fork_height cfg s iNew e =
     (if e = nat iNew then fork_tos cfg iNew - sp (uctx s)
      else tos (procTab s ! e) - sp (ctx (procTab s ! e)))"

definition fork_sp :: "config \<Rightarrow> kstate \<Rightarrow> int \<Rightarrow> nat \<Rightarrow> u32" where
  "fork_sp cfg s iNew e = fork_tos cfg iNew - fork_height cfg s iNew e"

definition fork_pre :: "config \<Rightarrow> kstate \<Rightarrow> int \<Rightarrow> nat \<Rightarrow> kstate" where
  "fork_pre cfg s iNew e =
     (let n = nat iNew;
          c = \<lparr>pid = iNew, status = STATUS_READY, tos = fork_tos cfg iNew,
               ctx = (uctx s)\<lparr>sp := fork_sp cfg s iNew e\<rparr>, lastExec = time s,
               niceness = (if e = n then 0 else niceness (procTab s ! e)),
               fdTab = map (\<lambda>_. 0) (fdTab (procTab s ! n))\<rparr>
      in s\<lparr>uart := uart s @ ''F'', currentProcesses := currentProcesses s + 1,
            mem := memcpy (mem s) (fork_sp cfg s iNew e) (sp (uctx s))
                     (fork_height cfg s iNew e),
            procTab := (procTab s)[n := c]\<rparr>)"

text \<open>
  The console right after boot, never preempted: the context saved in its PCB is still the
  one written by the reset handler, while its current stack pointer is \<open>0x700FFF00\<close>.
\<close>

definition fork_state :: kstate where
  "fork_state =
     \<lparr>currentProcesses = 1, time = 1,
      procTab = [\<lparr>pid = 0, status = STATUS_EXECUTING, tos = 0x70100000,
                  ctx = \<lparr>cpsr = 0x50, pc = 0x70010000, gpr = (\<lambda>_. 0), sp = 0x70100000\<rparr>,
                  lastExec = 0, niceness = 0, fdTab = no_fds\<rparr>,
                 zero_pcb 6, zero_pcb 6, zero_pcb 6],
      openFileTab = std_files, executing = Some 0,
      uctx = \<lparr>cpsr = 0x50, pc = 0x70010040, gpr = (\<lambda>_. 7), sp = 0x700FFF00\<rparr>,
      uart = [], mem = zero_mem, heap = []\<rparr>"

definition child_sp :: "nat \<Rightarrow> kstate \<Rightarrow> u32" where
  "child_sp n s = sp (ctx (procTab s ! n))"

section \<open>Notions used in the statements about the process counter\<close>

text \<open>
  \<open>live_count\<close> is the number of slots of the process table whose status is READY or EXECUTING,
  and \<open>count_inv\<close> says that \<open>currentProcesses\<close> equals it. \<open>same_status\<close> relates two states
  with the same counter and the same statuses.
\<close>

definition is_live :: "status_t \<Rightarrow> bool" where
  "is_live st \<longleftrightarrow> st = STATUS_READY \<or> st = STATUS_EXECUTING"

definition live_count :: "kstate \<Rightarrow> nat" where
  "live_count s = length (filter is_live (map status (procTab s)))"

definition count_inv :: "kstate \<Rightarrow> bool" where
  "count_inv s \<longleftrightarrow> currentProcesses s = int (live_count s)"

definition same_status :: "kstate \<Rightarrow> kstate \<Rightarrow> bool" where
  "same_status s t \<longleftrightarrow>
     currentProcesses t = currentProcesses s \<and> map status (procTab t) = map status (procTab s)"

text \<open>
  The entries into the kernel after the reset: an interrupt with the id read from the interrupt
  controller, and a supervisor call with its number. An event is an entry together with the
  registers and the memory that the user program has built up before it; \<open>at_trap\<close> is the
  state in which the handler starts, and \<open>enter\<close> runs it.
\<close>

datatype trap = Irq u32 | Svc u32

type_synonym event = "trap \<times> ctx_t \<times> (u32 \<Rightarrow> byte)"

definition kernel_trap :: "config \<Rightarrow> trap \<Rightarrow> kstate \<Rightarrow> fault + kstate" where
  "kernel_trap cfg tr s =
     (case tr of
        Irq i \<Rightarrow> hilevel_handler_irq cfg s i
      | Svc i \<Rightarrow> hilevel_handler_svc cfg s i)"

definition at_trap :: "kstate \<Rightarrow> event \<Rightarrow> kstate" where
  "at_trap s ev = s\<lparr>uctx := fst (snd ev), mem := snd (snd ev)\<rparr>"

definition enter :: "config \<Rightarrow> kstate \<Rightarrow> event \<Rightarrow> fault + kstate" where
  "enter cfg s ev = kernel_trap cfg (fst ev) (at_trap s ev)"

text \<open>
  The condition under which an entry keeps the counter right, for each entry that changes a
  status. \<open>sched_next\<close> is the index that the selection loop of \<open>schedule\<close> arrives at, and
  \<open>sched_guard\<close> says that the slot of that index is READY or EXECUTING: the scheduler marks
  it EXECUTING whatever it was. \<open>kill_guard\<close>: the target is READY or EXECUTING.
  \<open>fork_guard\<close>: the table is full, or the search finds a TERMINATED slot, or the slot
  \<open>currentProcesses\<close> that is taken otherwise is not READY or EXECUTING. \<open>exit_guard\<close>: the
  executing slot is READY or EXECUTING, and the scheduler, called after that slot has been
  marked TERMINATED, selects a slot that is READY or EXECUTING then.
\<close>

definition live_at :: "kstate \<Rightarrow> int \<Rightarrow> bool" where
  "live_at s i \<longleftrightarrow> is_live (status (procTab s ! nat i))"

definition sched_next :: "config \<Rightarrow> kstate \<Rightarrow> fault + int" where
  "sched_next cfg s =
     thenR (get_executing s)
       (\<lambda>(e, pe). thenR (schedule_loop s [0..<MAX_PROCS cfg] (niceness pe - 1, pid pe))
          (\<lambda>(highestPriority, nextIndex). Inr nextIndex))"

definition sched_guard :: "config \<Rightarrow> kstate \<Rightarrow> bool" where
  "sched_guard cfg s = (case sched_next cfg s of Inl x \<Rightarrow> False | Inr nextIndex \<Rightarrow> live_at s nextIndex)"

definition kill_guard :: "kstate \<Rightarrow> bool" where
  "kill_guard s = live_at s (sint (gpr (uctx s) 0))"

definition fork_guard :: "config \<Rightarrow> kstate \<Rightarrow> bool" where
  "fork_guard cfg s \<longleftrightarrow>
     int (MAX_PROCS cfg) \<le> currentProcesses s \<or>
     (\<exists>j \<in> set [1..<MAX_PROCS cfg]. status (procTab s ! j) = STATUS_TERMINATED) \<or>
     \<not> live_at s (currentProcesses s)"

definition exit_guard :: "config \<Rightarrow> kstate \<Rightarrow> bool" where
  "exit_guard cfg s \<longleftrightarrow>
     (case executing s of None \<Rightarrow> False | Some e \<Rightarrow> is_live (status (procTab s ! e))) \<and>
     (case exit_teardown cfg s of Inl x \<Rightarrow> False | Inr t \<Rightarrow> sched_guard cfg t)"

definition count_guard :: "config \<Rightarrow> trap \<Rightarrow> kstate \<Rightarrow> bool" where
  "count_guard cfg tr s =
     (case tr of
        Irq i \<Rightarrow> i \<noteq> GIC_SOURCE_TIMER0 cfg \<or> sched_guard cfg s
      | Svc i \<Rightarrow>
          if i = 0x00 then sched_guard cfg s
          else if i = 0x03 then fork_guard cfg s
          else if i = 0x04 then exit_guard cfg s
          else if i = 0x06 then kill_guard s
          else True)"

definition ev_guard :: "config \<Rightarrow> kstate \<Rightarrow> event \<Rightarrow> bool" where
  "ev_guard cfg s ev = count_guard cfg (fst ev) (at_trap s ev)"

text \<open>
  A run of the kernel from a state over a list of events, and the run from the reset, entered
  with the zeroed globals. \<open>guarded\<close>: every event of the run that is reached meets its
  condition.
\<close>

fun run :: "config \<Rightarrow> kstate \<Rightarrow> event list \<Rightarrow> fault + kstate" where
  "run cfg s [] = Inr s"
| "run cfg s (ev # evs) = thenR (enter cfg s ev) (\<lambda>s1. run cfg s1 evs)"

fun guarded :: "config \<Rightarrow> kstate \<Rightarrow> event list \<Rightarrow> bool" where
  "guarded cfg s [] = True"
| "guarded cfg s (ev # evs) =
     (ev_guard cfg s ev \<and>
      (case enter cfg s ev of Inl x \<Rightarrow> True | Inr s1 \<Rightarrow> guarded cfg s1 evs))"

definition from_reset :: "config \<Rightarrow> ctx_t \<Rightarrow> (u32 \<Rightarrow> byte) \<Rightarrow> event list \<Rightarrow> fault + kstate" where
  "from_reset cfg c m evs = thenR (hilevel_handler_rst cfg (boot cfg c m)) (\<lambda>s. run cfg s evs)"

definition guarded_from_reset :: "config \<Rightarrow> ctx_t \<Rightarrow> (u32 \<Rightarrow> byte) \<Rightarrow> event list \<Rightarrow> bool" where
  "guarded_from_reset cfg c m evs =
     (case hilevel_handler_rst cfg (boot cfg c m) of
        Inl x \<Rightarrow> True
      | Inr s \<Rightarrow> guarded cfg s evs)"

text \<open>
  Events of the concrete runs: a call with its first argument, and a tick of the timer. The
  runs start from the zeroed globals of \<open>boot0\<close>.
\<close>

definition call_ev :: "u32 \<Rightarrow> u32 \<Rightarrow> event" where
  "call_ev ident a0 = (Svc ident, call_ctx a0 0 0, zero_mem)"

definition tick_ev :: event where
  "tick_ev = (Irq (GIC_SOURCE_TIMER0 cfg0), zero_ctx, zero_mem)"

definition run0 :: "event list \<Rightarrow> fault + kstate" where
  "run0 evs = from_reset cfg0 zero_ctx zero_mem evs"

text \<open>
  A run in which every event meets its condition: the console forks, kills itself, and the
  timer ticks, so that the scheduler moves on to the child while the console is TERMINATED.
\<close>

definition good_run :: "event list" where
  "good_run = [call_ev 0x03 0, call_ev 0x06 0, tick_ev]"

section \<open>Basic lemmas\<close>

lemma thenR_Inr [simp]: "thenR (Inr x) f = f x"
  by (simp add: thenR_def)

lemma thenR_Inl [simp]: "thenR (Inl e) f = Inl e"
  by (simp add: thenR_def)

lemma thenR_eq_Inr: "thenR r f = Inr y \<longleftrightarrow> (\<exists>x. r = Inr x \<and> f x = Inr y)"
  by (cases r) simp_all

lemma for_loop_total:
  assumes "Q s"
    and "\<And>i t. i \<in> set ixs \<Longrightarrow> Q t \<Longrightarrow> \<exists>t'. body i t = Inr t' \<and> Q t'"
  shows "\<exists>s'. for_loop ixs body s = Inr s' \<and> Q s'"
  using assms
proof (induction ixs arbitrary: s)
  case Nil
  then show ?case by simp
next
  case (Cons i ixs)
  from Cons.prems obtain t where t: "body i s = Inr t" "Q t" by (meson list.set_intros(1))
  have "\<exists>s'. for_loop ixs body t = Inr s' \<and> Q s'"
    by (rule Cons.IH [OF t(2)]) (simp add: Cons.prems(2))
  with t show ?case by simp
qed

lemma for_loop_inv:
  assumes "for_loop ixs body s = Inr s'" and "P s"
    and "\<And>i t t'. i \<in> set ixs \<Longrightarrow> P t \<Longrightarrow> body i t = Inr t' \<Longrightarrow> P t'"
  shows "P s'"
  using assms
proof (induction ixs arbitrary: s)
  case Nil
  then show ?case by simp
next
  case (Cons i ixs)
  from Cons.prems(1) obtain t where t: "body i s = Inr t" "for_loop ixs body t = Inr s'"
    by (auto simp: thenR_eq_Inr)
  have pt: "P t" using Cons.prems(3) [of i s t] Cons.prems(2) t(1) by simp
  show ?case
    by (rule Cons.IH [OF t(2) pt]) (rule Cons.prems(3), simp_all)
qed

section \<open>Console output of the reset handler\<close>

lemma uart_printPID_0: "uart (printPID 0 s) = uart s @ ''0''"
  by (simp add: printPID_def PL011_putc_def char_of_def)

lemma reset_total:
  assumes "0 < MAX_PROCS cfg"
  shows "\<exists>s'. hilevel_handler_rst cfg (boot cfg c m) = Inr s' \<and> uart s' = ''R[?->0]''"
proof -
  let ?Q = "rst_shape cfg ''R''"
  let ?b1 = "\<lambda>i t. set_proc t (int i) (\<lambda>q. q\<lparr>status := STATUS_INVALID\<rparr>)"
  let ?b2 = "\<lambda>i t. if i < 3
                      then thenR (set_file t (int i) (\<lambda>f. f\<lparr>refCount := 1\<rparr>))
                             (\<lambda>t1. set_file t1 (int i)
                                      (\<lambda>f. f\<lparr>flag := (if i = 0 then RDONLY else WRONLY)\<rparr>))
                      else set_file t (int i) (\<lambda>f. f\<lparr>refCount := 0\<rparr>)"
  let ?b3 = "\<lambda>i t. thenR (get_proc t 0)
                        (\<lambda>q. if i < length (fdTab q) then set_proc t 0 (set_fd i (- 1))
                              else Inl OutOfBounds)"
  have q0: "?Q (PL011_putc CHR ''R'' (boot cfg c m))"
    by (simp add: rst_shape_def PL011_putc_def boot_def zero_pcb_def)
  have step1: "\<exists>t'. ?b1 i t = Inr t' \<and> ?Q t'" if "i \<in> set [0..<MAX_PROCS cfg]" "?Q t" for i t
    using that by (auto simp: rst_shape_def set_proc_def nth_list_update)
  have step2: "\<exists>t'. ?b2 i t = Inr t' \<and> ?Q t'" if "i \<in> set [0..<MAX_FDS cfg]" "?Q t" for i t
    using that by (auto simp: rst_shape_def set_file_def)
  from for_loop_total [where Q = ?Q and body = ?b1 and ixs = "[0..<MAX_PROCS cfg]", OF q0 step1]
  obtain s1 where s1: "for_loop [0..<MAX_PROCS cfg] ?b1 (PL011_putc CHR ''R'' (boot cfg c m)) = Inr s1"
    "?Q s1" by blast
  from for_loop_total [where Q = ?Q and body = ?b2 and ixs = "[0..<MAX_FDS cfg]", OF s1(2) step2]
  obtain s2 where s2: "for_loop [0..<MAX_FDS cfg] ?b2 s1 = Inr s2" "?Q s2" by blast
  let ?f3 = "\<lambda>q. (memset_pcb q)\<lparr>pid := 0, status := STATUS_READY, tos := tos_console cfg\<rparr>"
  have "\<exists>s3. set_proc s2 0 ?f3 = Inr s3 \<and> ?Q s3 \<and> pid (procTab s3 ! 0) = 0"
    using s2(2) assms
    by (auto simp: rst_shape_def set_proc_def memset_pcb_def nth_list_update)
  then obtain s3 where s3: "set_proc s2 0 ?f3 = Inr s3" "?Q s3" "pid (procTab s3 ! 0) = 0"
    by blast
  let ?f4 = "\<lambda>q. q\<lparr>ctx := (ctx q)\<lparr>cpsr := 0x50, pc := main_console cfg, sp := tos q\<rparr>,
                      lastExec := time s3, niceness := 0\<rparr>"
  have "\<exists>s4. set_proc s3 0 ?f4 = Inr s4 \<and> ?Q s4 \<and> pid (procTab s4 ! 0) = 0"
    using s3(2,3) assms
    by (auto simp: rst_shape_def set_proc_def nth_list_update)
  then obtain s4 where s4: "set_proc s3 0 ?f4 = Inr s4" "?Q s4" and p4: "pid (procTab s4 ! 0) = 0"
    by blast
  let ?Q5 = "\<lambda>t. ?Q t \<and> pid (procTab t ! 0) = 0"
  have q4: "?Q5 s4" using s4 p4 by simp
  have step3: "\<exists>t'. ?b3 i t = Inr t' \<and> ?Q5 t'" if "i \<in> set [0..<MAX_FDS cfg]" "?Q5 t" for i t
    using that assms
    by (auto simp: rst_shape_def set_proc_def get_proc_def set_fd_def nth_list_update)
  from for_loop_total [where Q = ?Q5 and body = ?b3 and ixs = "[0..<MAX_FDS cfg]", OF q4 step3]
  obtain s5 where s5: "for_loop [0..<MAX_FDS cfg] ?b3 s4 = Inr s5" "?Q5 s5" by blast
  have "\<exists>s'. dispatch (s5\<lparr>currentProcesses := currentProcesses s5 + 1\<rparr>) None (Some 0) = Inr s'
     \<and> uart s' = ''R[?->0]''"
    using s5(2) assms
    by (auto simp: dispatch_def rst_shape_def get_proc_def PL011_putc_def uart_printPID_0 Let_def)
  then show ?thesis
    using s1(1) s2(1) s3(1) s4(1) s5(1) by (simp add: hilevel_handler_rst_def)
qed

text \<open>
  Claim C7, as the code has it: from the power-on state, with a process table of at least one
  slot, the reset handler returns and has sent exactly the characters \<open>R[?->0]\<close> to the
  console. \<open>printPID\<close> sends the tens digit only for a pid of 10 or more, so pid 0 is the
  single character \<open>0\<close>.
\<close>

theorem rst_console_output:
  "0 < MAX_PROCS cfg \<Longrightarrow>
   map_sum id uart (hilevel_handler_rst cfg (boot cfg c m)) = Inr ''R[?->0]''"
proof -
  assume "0 < MAX_PROCS cfg"
  from reset_total [OF this, of c m] show ?thesis by auto
qed

theorem rst_console_output_witness:
  "0 < MAX_PROCS cfg0 \<and> map_sum id uart (hilevel_handler_rst cfg0 boot0) = Inr ''R[?->0]''"
  using rst_console_output [of cfg0 zero_ctx zero_mem] by (simp add: cfg0_def boot0_def)

text \<open>Claim C7 as stated fails: the output of the reset handler is not \<open>R[?->00]\<close>.\<close>

theorem rst_console_output_counterexample:
  "map_sum id uart (hilevel_handler_rst cfg0 boot0) \<noteq> Inr ''R[?->00]''"
proof -
  have "0 < MAX_PROCS cfg0" by (simp add: cfg0_def)
  from reset_total [OF this, of zero_ctx zero_mem] show ?thesis
    by (auto simp: boot0_def)
qed

section \<open>The scheduler\<close>

lemma printPID_eq: "printPID p s = s\<lparr>uart := uart s @ pid_digits p\<rparr>"
  by (simp add: printPID_def pid_digits_def PL011_putc_def Let_def)

lemma schedule_loop_append:
  "schedule_loop s (xs @ ys) acc = thenR (schedule_loop s xs acc) (schedule_loop s ys)"
proof (induction xs arbitrary: acc)
  case Nil
  show ?case by simp
next
  case (Cons i xs)
  obtain hp nx where acc: "acc = (hp, nx)" by (cases acc)
  show ?case unfolding acc
    by (cases "get_proc s (int i)") (simp_all add: Cons.IH)
qed

text \<open>The running maximum of the selection loop never exceeds a bound of the READY scores.\<close>

lemma schedule_loop_bound:
  assumes "\<forall>i \<in> set xs. i < length (procTab s) \<and> (is_ready s i \<longrightarrow> score s i \<le> M)"
    and "hp \<le> M" and "M \<le> INT_MAX"
  shows "\<exists>hp' nx'. schedule_loop s xs (hp, nx) = Inr (hp', nx') \<and> hp' \<le> M"
  using assms
proof (induction xs arbitrary: hp nx)
  case Nil
  then show ?case by simp
next
  case (Cons i xs)
  have i: "i < length (procTab s)" "is_ready s i \<longrightarrow> score s i \<le> M"
    and rest: "\<forall>i \<in> set xs. i < length (procTab s) \<and> (is_ready s i \<longrightarrow> score s i \<le> M)"
    using Cons.prems(1) by auto
  show ?case
  proof (cases "is_ready s i \<and> hp \<le> score s i")
    case True
    then have "score s i \<le> M" using i by simp
    from Cons.IH [OF rest this Cons.prems(3), of "int i"] True i Cons.prems(3) \<open>score s i \<le> M\<close>
    show ?thesis by (auto simp: get_proc_def is_ready_def score_def)
  next
    case False
    from Cons.IH [OF rest Cons.prems(2,3), of nx] False i
    show ?thesis by (auto simp: get_proc_def is_ready_def score_def)
  qed
qed

text \<open>READY slots whose score is below \<open>highestPriority\<close> leave the selection as it is.\<close>

lemma schedule_loop_keep:
  assumes "\<forall>i \<in> set xs. i < length (procTab s) \<and> (is_ready s i \<longrightarrow> score s i < hp)"
  shows "schedule_loop s xs (hp, nx) = Inr (hp, nx)"
  using assms
  by (induction xs) (auto simp: get_proc_def is_ready_def score_def)

text \<open>
  The loop uses \<open>>=\<close>, so among the READY slots of maximal score the last one scanned is
  the one selected.
\<close>

lemma schedule_loop_selects:
  assumes len: "n \<le> length (procTab s)" and j: "j < n" and rj: "is_ready s j"
    and mx: "\<forall>i < n. is_ready s i \<longrightarrow> score s i \<le> score s j"
    and last: "\<forall>i < n. j < i \<and> is_ready s i \<longrightarrow> score s i < score s j"
    and bound: "hp \<le> score s j" and im: "score s j \<le> INT_MAX"
  shows "schedule_loop s [0..<n] (hp, nx) = Inr (score s j, int j)"
proof -
  have split: "[0..<n] = [0..<j] @ j # [Suc j..<n]"
    using j by (metis less_imp_le_nat upt_add_eq_append upt_conv_Cons zero_le le_add_diff_inverse)
  obtain hp1 nx1 where p1: "schedule_loop s [0..<j] (hp, nx) = Inr (hp1, nx1)" "hp1 \<le> score s j"
    using schedule_loop_bound [of "[0..<j]" s "score s j" hp nx] len j mx bound im by auto
  have p2: "schedule_loop s (j # [Suc j..<n]) (hp1, nx1) = schedule_loop s [Suc j..<n] (score s j, int j)"
    using p1(2) rj im len j by (simp add: get_proc_def is_ready_def score_def)
  have p3: "schedule_loop s [Suc j..<n] (score s j, int j) = Inr (score s j, int j)"
    using len last by (intro schedule_loop_keep) auto
  show ?thesis
    unfolding split schedule_loop_append using p1(1) p2 p3 by simp
qed

lemma schedule_result:
  assumes ok: "sched_ok cfg s e"
    and loop: "schedule_loop s [0..<MAX_PROCS cfg] (niceness (procTab s ! e) - 1, int e) = Inr (hp, int j)"
    and j: "j < MAX_PROCS cfg"
  shows "\<exists>s'. schedule cfg s = Inr s' \<and> executing s' = Some j \<and> procTab s' = sched_tab s e j \<and>
           uctx s' = (if j = e then uctx s else ctx (procTab s ! j)) \<and> time s' = time s + 1 \<and>
           currentProcesses s' = currentProcesses s \<and> openFileTab s' = openFileTab s \<and>
           heap s' = heap s \<and> mem s' = mem s"
  using ok loop j
  by (auto simp: sched_ok_def schedule_def get_executing_def dispatch_def set_proc_def get_proc_def
      Let_def PL011_putc_def printPID_eq sched_tab_def list_update_swap)

lemma all_less_4: "(\<forall>i<4. P i) \<longleftrightarrow> P 0 \<and> P 1 \<and> P 2 \<and> P (3::nat)"
proof -
  have "{i::nat. i < 4} = {0, 1, 2, 3}" by auto
  then show ?thesis by (metis (no_types, lifting) insert_iff mem_Collect_eq empty_iff)
qed

text \<open>
  Claim C2, as the code has it: when the scheduler runs without a fault and READY slots \<open>k < j\<close>
  both attain the maximal score, that score meets the bound \<open>executing->niceness - 1\<close>, and
  \<open>j\<close> is the highest-indexed READY slot of that score, the scheduler dispatches \<open>j\<close>, not
  \<open>k\<close>. The score is the value the code computes, in unsigned 32-bit arithmetic.
\<close>

theorem schedule_tie_highest_index:
  assumes "sched_ok cfg s e" and "k < j" and "j < MAX_PROCS cfg"
    and "is_ready s k" and "is_ready s j" and "score s k = score s j"
    and "\<forall>i < MAX_PROCS cfg. is_ready s i \<longrightarrow> score s i \<le> score s j"
    and "\<forall>i < MAX_PROCS cfg. j < i \<and> is_ready s i \<longrightarrow> score s i < score s j"
    and "niceness (procTab s ! e) - 1 \<le> score s j"
  shows "\<exists>s'. schedule cfg s = Inr s' \<and> executing s' = Some j \<and> executing s' \<noteq> Some k \<and>
           status (procTab s' ! j) = STATUS_EXECUTING"
proof -
  have len: "MAX_PROCS cfg \<le> length (procTab s)" and im: "score s j \<le> INT_MAX"
    using assms(1,3,5) by (auto simp: sched_ok_def)
  have loop: "schedule_loop s [0..<MAX_PROCS cfg] (niceness (procTab s ! e) - 1, int e)
                = Inr (score s j, int j)"
    by (rule schedule_loop_selects [OF len assms(3) assms(5) assms(7) assms(8) assms(9) im])
  from schedule_result [OF assms(1) loop assms(3)] assms(1,2,3)
  show ?thesis by (auto simp: sched_tab_def sched_ok_def Let_def)
qed

theorem schedule_tie_highest_index_witness:
  "\<exists>s'. schedule cfg0 tie_state = Inr s' \<and> executing s' = Some 2 \<and> executing s' \<noteq> Some 1 \<and>
           status (procTab s' ! 2) = STATUS_EXECUTING"
  using schedule_tie_highest_index [of cfg0 tie_state 0 1 2]
  by (simp add: sched_ok_def is_ready_def score_def tie_state_def mk_pcb_def zero_pcb_def
      ipriority_def cfg0_def INT_MAX_def all_less_4)

text \<open>
  Claim C2 as stated fails: slots 1 and 2 are the READY slots, their scores are equal and meet
  the bound, and the scheduler dispatches slot 2, not the lowest-indexed slot 1.
\<close>

theorem schedule_tie_counterexample:
  "is_ready tie_state 1 \<and> is_ready tie_state 2 \<and> \<not> is_ready tie_state 0 \<and> \<not> is_ready tie_state 3 \<and>
   score tie_state 1 = score tie_state 2 \<and>
   niceness (procTab tie_state ! 0) - 1 \<le> score tie_state 1 \<and>
   map_sum id executing (schedule cfg0 tie_state) = Inr (Some 2)"
  by (simp add: is_ready_def score_def tie_state_def mk_pcb_def zero_pcb_def ipriority_def
      schedule_def cfg0_def get_executing_def get_proc_def set_proc_def dispatch_def Let_def
      PL011_putc_def printPID_eq INT_MAX_def upt_rec)

text \<open>
  Claim C8, as the code has it: when the scheduler runs without a fault and slot \<open>j\<close> is the
  only READY slot, it selects \<open>j\<close> if the score of \<open>j\<close> is at least
  \<open>executing->niceness - 1\<close>, and otherwise re-selects the executing slot \<open>e\<close>. It dispatches
  into the slot \<open>n\<close> selected: the context at the trap is saved in the PCB of \<open>e\<close>, the saved
  context of \<open>n\<close> becomes the context to resume, \<open>executing\<close> points to \<open>n\<close> and the status of
  \<open>n\<close> is EXECUTING.
\<close>

theorem schedule_single_ready:
  assumes "sched_ok cfg s e" and "j < MAX_PROCS cfg"
    and "\<forall>i < MAX_PROCS cfg. is_ready s i \<longleftrightarrow> i = j"
    and "n = (if niceness (procTab s ! e) - 1 \<le> score s j then j else e)"
  shows "\<exists>s'. schedule cfg s = Inr s' \<and> executing s' = Some n \<and>
           status (procTab s' ! n) = STATUS_EXECUTING \<and>
           ctx (procTab s' ! e) = uctx s \<and>
           uctx s' = (if n = e then uctx s else ctx (procTab s ! n))"
proof (cases "niceness (procTab s ! e) - 1 \<le> score s j")
  case True
  have len: "MAX_PROCS cfg \<le> length (procTab s)" and im: "score s j \<le> INT_MAX"
    using assms by (auto simp: sched_ok_def)
  have loop: "schedule_loop s [0..<MAX_PROCS cfg] (niceness (procTab s ! e) - 1, int e)
                = Inr (score s j, int j)"
    using assms(2,3) by (intro schedule_loop_selects [OF len assms(2) _ _ _ True im]) auto
  from schedule_result [OF assms(1) loop assms(2)] assms(1,2,4) True
  show ?thesis by (auto simp: sched_tab_def sched_ok_def Let_def)
next
  case False
  have e: "e < MAX_PROCS cfg" and len: "length (procTab s) = MAX_PROCS cfg"
    using assms(1) by (auto simp: sched_ok_def)
  have loop: "schedule_loop s [0..<MAX_PROCS cfg] (niceness (procTab s ! e) - 1, int e)
                = Inr (niceness (procTab s ! e) - 1, int e)"
    using assms(3) False len by (intro schedule_loop_keep) auto
  from schedule_result [OF assms(1) loop e] e len False assms(4)
  show ?thesis by (auto simp: sched_tab_def Let_def)
qed

theorem schedule_single_ready_witness:
  "\<exists>s'. schedule cfg0 yield_state = Inr s' \<and> executing s' = Some 1 \<and>
         status (procTab s' ! 1) = STATUS_EXECUTING \<and>
         ctx (procTab s' ! 0) = call_ctx 7 0 0 \<and> uctx s' = zero_ctx \<and>
         uctx yield_state = call_ctx 7 0 0 \<and> call_ctx 7 0 0 \<noteq> zero_ctx"
proof -
  have ok: "sched_ok cfg0 yield_state 0"
    and rd: "\<forall>i < MAX_PROCS cfg0. is_ready yield_state i \<longleftrightarrow> i = 1"
    and n: "1 = (if niceness (procTab yield_state ! 0) - 1 \<le> score yield_state 1 then 1 else 0)"
    by (simp_all add: sched_ok_def is_ready_def score_def yield_state_def single_state_def
        mk_pcb_def zero_pcb_def ipriority_def cfg0_def INT_MAX_def all_less_4)
  have j: "1 < MAX_PROCS cfg0" by (simp add: cfg0_def)
  have c: "ctx (procTab yield_state ! 1) = zero_ctx" "uctx yield_state = call_ctx 7 0 0"
    by (simp_all add: yield_state_def single_state_def mk_pcb_def)
  have d: "call_ctx 7 0 0 \<noteq> zero_ctx"
  proof
    assume "call_ctx 7 0 0 = zero_ctx"
    then have "gpr (call_ctx 7 0 0) 0 = gpr zero_ctx 0" by simp
    then show False by (simp add: call_ctx_def zero_ctx_def)
  qed
  from schedule_single_ready [OF ok j rd n] c d show ?thesis by simp
qed

text \<open>
  Claim C8 as stated fails: slot 1 is the only READY slot, its score 0 is below the bound
  \<open>20 - 1\<close> set by the executing console, and the scheduler re-selects slot 0.
\<close>

theorem schedule_single_ready_counterexample:
  "is_ready nice_state 1 \<and> \<not> is_ready nice_state 0 \<and> \<not> is_ready nice_state 2 \<and>
   \<not> is_ready nice_state 3 \<and> map_sum id executing (schedule cfg0 nice_state) = Inr (Some 0)"
  by (simp add: is_ready_def score_def nice_state_def mk_pcb_def zero_pcb_def ipriority_def
      schedule_def cfg0_def get_executing_def get_proc_def set_proc_def dispatch_def Let_def
      PL011_putc_def printPID_eq INT_MAX_def upt_rec)

section \<open>fork on a full process table\<close>

lemma foldl_putc: "foldl (\<lambda>t c. PL011_putc c t) s cs = s\<lparr>uart := uart s @ cs\<rparr>"
  by (induction cs arbitrary: s) (simp_all add: PL011_putc_def)

lemma print_eq: "print x n s = s\<lparr>uart := uart s @ take n x\<rparr>"
  by (simp add: print_def foldl_putc)

text \<open>
  Claim C4: if \<open>currentProcesses >= MAX_PROCS\<close> when fork (svc 0x03) is invoked, the call
  returns, \<open>gpr[0]\<close> of the caller holds -1, and the process table, \<open>currentProcesses\<close> and
  the open-file table are unchanged.
\<close>

theorem fork_table_full:
  assumes "int (MAX_PROCS cfg) \<le> currentProcesses s"
  shows "\<exists>s'. hilevel_handler_svc cfg s 0x03 = Inr s' \<and> sint (gpr (uctx s') 0) = - 1 \<and>
           procTab s' = procTab s \<and> currentProcesses s' = currentProcesses s \<and>
           openFileTab s' = openFileTab s"
  using assms
  by (simp add: hilevel_handler_svc_def sys_fork_def Let_def PL011_putc_def print_eq set_gpr0_def)

theorem fork_table_full_witness:
  "int (MAX_PROCS cfg0) \<le> currentProcesses full_state \<and>
   (\<exists>s'. hilevel_handler_svc cfg0 full_state 0x03 = Inr s' \<and> sint (gpr (uctx s') 0) = - 1 \<and>
      procTab s' = procTab full_state \<and> currentProcesses s' = currentProcesses full_state \<and>
      openFileTab s' = openFileTab full_state)"
  using fork_table_full [of cfg0 full_state] by (simp add: cfg0_def full_state_def)

section \<open>close\<close>

lemma for_loop_append:
  "for_loop (xs @ ys) body s = thenR (for_loop xs body s) (for_loop ys body)"
  by (induction xs arbitrary: s) (simp_all add: thenR_def split: sum.splits)

lemma for_loop_upt_Suc:
  "for_loop [0..<Suc n] body s = thenR (for_loop [0..<n] body s) (body n)"
proof -
  have "for_loop [n] body t = body n t" for t
    by (cases "body n t") simp_all
  then show ?thesis
    by (cases "for_loop [0..<n] body s") (simp_all add: for_loop_append)
qed

lemma close_loop_prefix:
  assumes pd: "0 \<le> pd" "pd < int (length (procTab s))"
    and n: "n \<le> length (fdTab (procTab s ! nat pd))"
  shows "for_loop [0..<n]
           (\<lambda>i t. thenR (get_proc t pd)
                     (\<lambda>q. thenR (get_fd q i)
                        (\<lambda>v. if v = fd then set_proc_fd t pd i (- 1) else Inr t)))
           s
         = Inr (wipe_proc s pd (wipe_fd fd (take n (fdTab (procTab s ! nat pd)))
                                 @ drop n (fdTab (procTab s ! nat pd))))"
  using n
proof (induction n)
  case 0
  show ?case using pd by (simp add: wipe_proc_def wipe_fd_def)
next
  case (Suc n)
  let ?fds = "fdTab (procTab s ! nat pd)"
  have n: "n < length ?fds" using Suc.prems by simp
  have tk: "take (Suc n) ?fds = take n ?fds @ [?fds ! n]"
    using n by (simp add: take_Suc_conv_app_nth)
  have dr: "drop n ?fds = ?fds ! n # drop (Suc n) ?fds"
    using n by (simp add: Cons_nth_drop_Suc)
  have ln: "length (wipe_fd fd (take n ?fds)) = n" using n by (simp add: wipe_fd_def)
  show ?case
    using Suc.IH n pd ln
    apply (simp only: for_loop_upt_Suc)
    apply (simp add: wipe_proc_def get_proc_def get_fd_def set_proc_fd_def set_proc_def set_fd_def
        nth_append tk dr wipe_fd_def list_update_append)
    done
qed

lemma close_loop:
  assumes "0 \<le> pd" "pd < int (length (procTab s))"
    and "length (fdTab (procTab s ! nat pd)) = MAX_FDS cfg"
  shows "for_loop [0..<MAX_FDS cfg]
           (\<lambda>i t. thenR (get_proc t pd)
                     (\<lambda>q. thenR (get_fd q i)
                        (\<lambda>v. if v = fd then set_proc_fd t pd i (- 1) else Inr t)))
           s
         = Inr (wipe_proc s pd (wipe_fd fd (fdTab (procTab s ! nat pd))))"
  using close_loop_prefix [OF assms(1,2), of "MAX_FDS cfg" fd] assms(3) by simp

lemma close_fd_eq:
  assumes "0 \<le> pd" "pd < int (length (procTab s))"
    and "length (fdTab (procTab s ! nat pd)) = MAX_FDS cfg"
    and "length (openFileTab s) = MAX_FDS cfg"
  shows "close_fd cfg s fd pd =
           (if 0 \<le> fd \<and> fd < int (MAX_FDS cfg)
            then thenR (close_result s fd pd) (\<lambda>t. Inr (t, 0))
            else Inr (s, - 1))"
  using assms(4)
  by (auto simp: close_fd_def close_loop [OF assms(1-3)] set_file_def get_file_def wipe_proc_def
      close_result_def Let_def)

lemma free_eq: "can_free s a \<Longrightarrow> free a s = Inr (s\<lparr>heap := released a (heap s)\<rparr>)"
  by (auto simp: can_free_def free_def released_def)

lemma free_Inr: "free a s = Inr t \<Longrightarrow> can_free s a \<and> t = s\<lparr>heap := released a (heap s)\<rparr>"
  by (auto simp: can_free_def free_def released_def split: if_splits option.splits)

text \<open>
  Claim C9, with the condition under which the call is defined: close (svc 0x09) returns 0 for
  every descriptor \<open>fd\<close> with \<open>0 <= fd < MAX_FDS\<close>, whatever the entry (reserved, open or
  free), and decrements \<open>openFileTab[fd].refCount\<close> each time, so that the count of a free
  entry becomes negative, provided that the pointer of an entry whose count drops to zero or
  less is null or a pipe not yet released; that pipe is then released. The call returns -1,
  and leaves the open-file table and the store as they are, exactly when \<open>fd\<close> is outside
  that range.
\<close>

theorem close_return_value:
  assumes "close_ok cfg s" and "fd = sint (gpr (uctx s) 0)"
    and "0 \<le> fd \<and> fd < int (MAX_FDS cfg) \<longrightarrow> free_ok s fd"
  shows "\<exists>s'. hilevel_handler_svc cfg s 0x09 = Inr s' \<and>
           (if 0 \<le> fd \<and> fd < int (MAX_FDS cfg)
            then sint (gpr (uctx s') 0) = 0 \<and>
                 refCount (openFileTab s' ! nat fd) = refCount (openFileTab s ! nat fd) - 1 \<and>
                 heap s' = (if refCount (openFileTab s ! nat fd) \<le> 1
                            then released (file_ptr (openFileTab s ! nat fd)) (heap s)
                            else heap s)
            else sint (gpr (uctx s') 0) = - 1 \<and> openFileTab s' = openFileTab s \<and>
                 heap s' = heap s)"
proof -
  from assms(1) obtain e where e: "executing s = Some e" "e < length (procTab s)"
    "pid (procTab s ! e) = int e" "length (fdTab (procTab s ! e)) = MAX_FDS cfg"
    "length (openFileTab s) = MAX_FDS cfg"
    by (auto simp: close_ok_def split: option.splits)
  have c: "close_fd cfg s fd (int e) =
           (if 0 \<le> fd \<and> fd < int (MAX_FDS cfg)
            then thenR (close_result s fd (int e)) (\<lambda>t. Inr (t, 0))
            else Inr (s, - 1))"
    using e by (intro close_fd_eq) auto
  have run: "hilevel_handler_svc cfg s 0x09
               = thenR (close_fd cfg s fd (int e)) (\<lambda>(s1, r). Inr (set_gpr0 (word_of_int r) s1))"
    using e assms(2)
    by (simp add: hilevel_handler_svc_def sys_close_def get_executing_def get_proc_def Let_def)
  show ?thesis
  proof (cases "0 \<le> fd \<and> fd < int (MAX_FDS cfg)")
    case False
    then show ?thesis unfolding run c by (auto simp: set_gpr0_def)
  next
    case True
    let ?f = "openFileTab s ! nat fd"
    let ?s2 = "(wipe_proc s (int e) (wipe_fd fd (fdTab (procTab s ! nat (int e)))))
                 \<lparr>openFileTab := (openFileTab s)[nat fd := ?f\<lparr>refCount := refCount ?f - 1\<rparr>]\<rparr>"
    have nf: "nat fd < length (openFileTab s)" using True e(5) by (simp add: nat_less_iff)
    show ?thesis
    proof (cases "refCount ?f \<le> 1")
      case False
      then have "close_result s fd (int e) = Inr ?s2" by (simp add: close_result_def Let_def)
      then show ?thesis
        unfolding run c using True False nf by (simp add: set_gpr0_def wipe_proc_def)
    next
      case le: True
      with assms(3) True have "can_free s (file_ptr ?f)" by (simp add: free_ok_def)
      then have "can_free ?s2 (file_ptr ?f)" by (simp add: can_free_def wipe_proc_def)
      from free_eq [OF this] le
      have "close_result s fd (int e) = Inr (?s2\<lparr>heap := released (file_ptr ?f) (heap ?s2)\<rparr>)"
        by (simp add: close_result_def Let_def)
      then show ?thesis
        unfolding run c using True le nf by (simp add: set_gpr0_def wipe_proc_def)
    qed
  qed
qed

theorem close_return_value_witness:
  "(\<exists>s'. hilevel_handler_svc cfg0 close_state 0x09 = Inr s' \<and> sint (gpr (uctx s') 0) = 0 \<and>
         refCount (openFileTab close_state ! 3) = 0 \<and> refCount (openFileTab s' ! 3) = - 1 \<and>
         heap s' = []) \<and>
   (\<exists>s'. hilevel_handler_svc cfg0 (user_call 3 pipe_state) 0x09 = Inr s' \<and>
         sint (gpr (uctx s') 0) = 0 \<and> refCount (openFileTab s' ! 3) = 0 \<and> heap s' = [None])"
proof -
  have "\<exists>s'. hilevel_handler_svc cfg0 close_state 0x09 = Inr s' \<and> sint (gpr (uctx s') 0) = 0 \<and>
         refCount (openFileTab close_state ! 3) = 0 \<and> refCount (openFileTab s' ! 3) = - 1 \<and>
         heap s' = []"
    using close_return_value [of cfg0 close_state 3]
    by (simp add: close_ok_def free_ok_def can_free_def released_def close_state_def
        single_state_def call_ctx_def zero_ctx_def mk_pcb_def no_fds_def std_files_def cfg0_def)
  moreover
  have "\<exists>s'. hilevel_handler_svc cfg0 (user_call 3 pipe_state) 0x09 = Inr s' \<and>
         sint (gpr (uctx s') 0) = 0 \<and> refCount (openFileTab s' ! 3) = 0 \<and> heap s' = [None]"
  proof -
    have ok: "close_ok cfg0 (user_call 3 pipe_state)"
      by (simp add: close_ok_def user_call_def pipe_state_def pipe_files_def mk_pcb_def cfg0_def)
    have fd: "3 = sint (gpr (uctx (user_call 3 pipe_state)) 0)"
      by (simp add: user_call_def)
    have fr: "0 \<le> (3::int) \<and> 3 < int (MAX_FDS cfg0) \<longrightarrow> free_ok (user_call 3 pipe_state) 3"
      by (simp add: free_ok_def can_free_def user_call_def pipe_state_def pipe_files_def)
    have "heap (user_call 3 pipe_state) = [Some (new_pipe cfg0)]"
      "openFileTab (user_call 3 pipe_state) ! 3 = \<lparr>file_ptr = 1, flag = RDONLY, refCount = 1\<rparr>"
      by (simp_all add: user_call_def pipe_state_def pipe_files_def)
    with close_return_value [OF ok fd fr] show ?thesis
      by (simp add: released_def cfg0_def)
  qed
  ultimately show ?thesis by blast
qed

text \<open>
  Claim C9 as stated, for every descriptor within range, fails: the console holds both ends of
  a pipe, entries 3 and 4, which share one pointer. \<open>close(3)\<close> returns 0 and releases the
  pipe; \<open>close(4)\<close>, also within range, brings the count of entry 4 to zero and passes the
  same pointer to \<open>free\<close> again, which is undefined in C and a fault of the model. So does a
  second \<open>close(3)\<close>, on the entry that is no longer open, whose count drops from 0 to -1.
\<close>

theorem close_twice_counterexample:
  "map_sum id ret_val (hilevel_handler_svc cfg0 (user_call 3 pipe_state) 0x09) = Inr 0 \<and>
   map_sum id ret_val close_twice_run = Inl DanglingPointer \<and>
   map_sum id ret_val close_again_run = Inl DanglingPointer"
  by code_simp

section \<open>The circular buffer of a pipe\<close>

lemma c_rem_nonneg: "0 \<le> a \<Longrightarrow> 0 < b \<Longrightarrow> c_rem a b = Inr (a mod b)"
  by (cases "a = 0") (simp_all add: c_rem_def)

lemma mod_shift_neq:
  fixes a d C :: int
  assumes "0 < d" "d < C"
  shows "(a + d) mod C \<noteq> a mod C"
proof
  assume "(a + d) mod C = a mod C"
  then have "C dvd (a + d) - a" by (simp only: mod_eq_dvd_iff)
  then have "C dvd d" by simp
  with assms show False by (simp add: zdvd_not_zless)
qed

lemma write_step:
  assumes h: "pipe_holds p c" and c: "c < size_pipe p"
  shows "write_loop m (Suc r) p x i =
           write_loop m r
             (p\<lparr>rear := (front p + c) mod size_pipe p,
                buffer := (buffer p)[nat ((front p + c) mod size_pipe p) := m x],
                full := (c + 1 = size_pipe p)\<rparr>) (x + 1) (i + 1)"
    and "pipe_holds
           (p\<lparr>rear := (front p + c) mod size_pipe p,
              buffer := (buffer p)[nat ((front p + c) mod size_pipe p) := m x],
              full := (c + 1 = size_pipe p)\<rparr>) (c + 1)"
proof -
  let ?C = "size_pipe p"
  let ?r1 = "(front p + c) mod ?C"
  from h have wf: "pipe_wf p" and c0: "0 \<le> c" and nf: "\<not> full p"
    and rr: "(rear p + 1) mod ?C = ?r1"
    using c by (auto simp: pipe_holds_def)
  from wf have C: "0 < ?C" and len: "int (length (buffer p)) = ?C" and f: "0 \<le> front p" "front p < ?C"
    and r: "- 1 \<le> rear p" by (auto simp: pipe_wf_def)
  have r1: "c_rem (rear p + 1) ?C = Inr ?r1" using r C rr by (simp add: c_rem_nonneg)
  have r1b: "0 \<le> ?r1" "?r1 < ?C" using C by simp_all
  have r2: "c_rem (?r1 + 1) ?C = Inr ((front p + c + 1) mod ?C)"
    using r1b C by (simp add: c_rem_nonneg mod_simps)
  have fl: "front p = (front p + c + 1) mod ?C \<longleftrightarrow> c + 1 = ?C"
  proof
    assume "front p = (front p + c + 1) mod ?C"
    then have "(front p + (c + 1)) mod ?C = front p mod ?C" using f by (simp add: add.assoc)
    then have "\<not> (c + 1 < ?C)" using mod_shift_neq [of "c + 1" ?C "front p"] c0 by auto
    with c show "c + 1 = ?C" by simp
  next
    assume "c + 1 = ?C"
    then have "(front p + c + 1) mod ?C = (front p + ?C) mod ?C" by (simp add: add.assoc)
    then show "front p = (front p + c + 1) mod ?C" using f by simp
  qed
  show "write_loop m (Suc r) p x i =
           write_loop m r
             (p\<lparr>rear := ?r1, buffer := (buffer p)[nat ?r1 := m x], full := (c + 1 = ?C)\<rparr>)
             (x + 1) (i + 1)"
  proof (cases "c + 1 = ?C")
    case True
    then show ?thesis using nf r1 r1b r2 len fl by (simp add: Let_def)
  next
    case False
    have eq: "p\<lparr>rear := ?r1, buffer := (buffer p)[nat ?r1 := m x], full := False\<rparr>
            = p\<lparr>rear := ?r1, buffer := (buffer p)[nat ?r1 := m x]\<rparr>"
      using nf by simp
    show ?thesis using False nf r1 r1b r2 len fl by (simp add: Let_def eq)
  qed
  show "pipe_holds
           (p\<lparr>rear := ?r1, buffer := (buffer p)[nat ?r1 := m x], full := (c + 1 = ?C)\<rparr>) (c + 1)"
  proof -
    let ?p' = "p\<lparr>rear := ?r1, buffer := (buffer p)[nat ?r1 := m x], full := (c + 1 = ?C)\<rparr>"
    have m1: "- 1 \<le> ?r1" using r1b by linarith
    have "pipe_wf ?p'"
      unfolding pipe_wf_def using C len f m1 r1b(2) by simp
    moreover have "(rear ?p' + 1) mod size_pipe ?p' = (front ?p' + (c + 1)) mod size_pipe ?p'"
      by (simp add: mod_simps add.assoc)
    ultimately show ?thesis
      unfolding pipe_holds_def using c c0 by simp
  qed
qed


lemma write_loop_holds:
  assumes "pipe_holds p c" and "c + int k \<le> size_pipe p"
  shows "\<exists>p'. write_loop m k p x i = Inr (p', i + int k) \<and> pipe_holds p' (c + int k) \<and>
           front p' = front p \<and> size_pipe p' = size_pipe p \<and>
           (\<forall>j<k. buffer p' ! nat ((front p + c + int j) mod size_pipe p) = m (x + of_nat j)) \<and>
           (\<forall>q. 0 \<le> q \<and> q < size_pipe p \<and>
                (\<forall>j<k. q \<noteq> (front p + c + int j) mod size_pipe p)
                \<longrightarrow> buffer p' ! nat q = buffer p ! nat q)"
  using assms
proof (induction k arbitrary: p c x i)
  case 0
  then show ?case by simp
next
  case (Suc k)
  let ?C = "size_pipe p"
  let ?r1 = "(front p + c) mod ?C"
  let ?p1 = "p\<lparr>rear := ?r1, buffer := (buffer p)[nat ?r1 := m x], full := (c + 1 = ?C)\<rparr>"
  from Suc.prems have c: "c < ?C" and c0: "0 \<le> c" and C: "0 < ?C"
    and len: "int (length (buffer p)) = ?C"
    by (auto simp: pipe_holds_def pipe_wf_def)
  have r1b: "0 \<le> ?r1" "?r1 < ?C" using C by simp_all
  have st: "write_loop m (Suc k) p x i = write_loop m k ?p1 (x + 1) (i + 1)"
    and h1: "pipe_holds ?p1 (c + 1)"
    using write_step [OF Suc.prems(1) c] by simp_all
  have "c + 1 + int k \<le> size_pipe ?p1" using Suc.prems(2) by simp
  from Suc.IH [OF h1 this, of "x + 1" "i + 1"]
  obtain p' where p': "write_loop m k ?p1 (x + 1) (i + 1) = Inr (p', i + 1 + int k)"
    "pipe_holds p' (c + 1 + int k)" "front p' = front p" "size_pipe p' = ?C"
    and wr: "\<forall>j<k. buffer p' ! nat ((front p + (c + 1) + int j) mod ?C) = m (x + 1 + of_nat j)"
    and un: "\<forall>q. 0 \<le> q \<and> q < ?C \<and> (\<forall>j<k. q \<noteq> (front p + (c + 1) + int j) mod ?C)
                \<longrightarrow> buffer p' ! nat q = buffer ?p1 ! nat q"
    by auto
  have sep: "?r1 \<noteq> (front p + (c + 1) + int j) mod ?C" if "j < k" for j
  proof -
    have "0 < 1 + int j" "1 + int j < ?C" using that Suc.prems(2) c0 by simp_all
    from mod_shift_neq [OF this, of "front p + c"] show ?thesis by (simp add: add.assoc)
  qed
  have first: "buffer p' ! nat ?r1 = m x"
  proof -
    have "buffer p' ! nat ?r1 = buffer ?p1 ! nat ?r1" using un r1b sep by blast
    also have "\<dots> = m x" using r1b len by simp
    finally show ?thesis .
  qed
  have written: "buffer p' ! nat ((front p + c + int j) mod ?C) = m (x + of_nat j)"
    if "j < Suc k" for j
  proof (cases j)
    case 0
    then show ?thesis using first by simp
  next
    case (Suc j')
    then have "j' < k" using that by simp
    with wr have "buffer p' ! nat ((front p + (c + 1) + int j') mod ?C) = m (x + 1 + of_nat j')"
      by blast
    then show ?thesis using Suc by (simp add: add.assoc add.commute add.left_commute)
  qed
  have unchanged: "buffer p' ! nat q = buffer p ! nat q"
    if q: "0 \<le> q" "q < ?C" "\<forall>j<Suc k. q \<noteq> (front p + c + int j) mod ?C" for q
  proof -
    have q0: "q \<noteq> ?r1" using q(3) by force
    have "q \<noteq> (front p + (c + 1) + int j) mod ?C" if "j < k" for j
      using q(3) that by (metis Suc_less_eq add.assoc of_nat_Suc add.commute)
    then have "buffer p' ! nat q = buffer ?p1 ! nat q" using un q by blast
    also have "\<dots> = buffer p ! nat q" using q0 q(1) r1b by simp
    finally show ?thesis .
  qed
  show ?case
    using st p' written unchanged by (simp add: add.assoc add.commute add.left_commute)
qed


lemma word_shift_neq:
  assumes "0 < d" "d < 2 ^ 32"
  shows "(word_of_int (i + d) :: u32) \<noteq> word_of_int i"
proof
  assume "(word_of_int (i + d) :: u32) = word_of_int i"
  then have "take_bit LENGTH(32) (i + d) = take_bit LENGTH(32) i"
    by (simp only: word_of_int_eq_iff)
  then have "(i + d) mod 2 ^ 32 = i mod 2 ^ 32"
    by (simp add: take_bit_eq_mod)
  with mod_shift_neq [OF assms, of i] show False by simp
qed

lemma read_step:
  assumes h: "pipe_holds p c" and c: "0 < c"
  shows "read_loop (Suc r) p m x i =
           read_loop r (p\<lparr>front := (front p + 1) mod size_pipe p, full := False\<rparr>)
             (m(x + word_of_int i := buffer p ! nat (front p))) x (i + 1)"
    and "pipe_holds (p\<lparr>front := (front p + 1) mod size_pipe p, full := False\<rparr>) (c - 1)"
proof -
  let ?C = "size_pipe p"
  from h have wf: "pipe_wf p" and cC: "c \<le> ?C" and fl: "full p \<longleftrightarrow> c = ?C"
    and rr: "(rear p + 1) mod ?C = (front p + c) mod ?C"
    by (auto simp: pipe_holds_def)
  from wf have C: "0 < ?C" and len: "int (length (buffer p)) = ?C" and f: "0 \<le> front p" "front p < ?C"
    and r: "- 1 \<le> rear p" "rear p < ?C" by (auto simp: pipe_wf_def)
  have e: "c_rem (rear p + 1) ?C = Inr ((front p + c) mod ?C)"
    using r C rr by (simp add: c_rem_nonneg)
  have ne: "\<not> (front p = (front p + c) mod ?C \<and> \<not> full p)"
  proof (cases "c = ?C")
    case True
    then show ?thesis using fl by simp
  next
    case False
    then have "c < ?C" using cC by simp
    from mod_shift_neq [OF c this, of "front p"] f show ?thesis by simp
  qed
  have f1: "c_rem (front p + 1) ?C = Inr ((front p + 1) mod ?C)"
    using f C by (simp add: c_rem_nonneg)
  show "read_loop (Suc r) p m x i =
           read_loop r (p\<lparr>front := (front p + 1) mod ?C, full := False\<rparr>)
             (m(x + word_of_int i := buffer p ! nat (front p))) x (i + 1)"
    using e ne f1 f len by auto
  let ?p' = "p\<lparr>front := (front p + 1) mod ?C, full := False\<rparr>"
  have "pipe_wf ?p'"
    unfolding pipe_wf_def using C len r by simp
  moreover have "(rear ?p' + 1) mod size_pipe ?p' = (front ?p' + (c - 1)) mod size_pipe ?p'"
    using rr by (simp add: mod_simps)
  ultimately show "pipe_holds ?p' (c - 1)"
    unfolding pipe_holds_def using c cC by simp
qed

lemma read_loop_holds:
  assumes "pipe_holds p c" and "int k \<le> c" and "0 \<le> i" and "i + int k \<le> 2 ^ 32"
  shows "\<exists>p' m'. read_loop k p m x i = Inr (p', m', i + int k) \<and> pipe_holds p' (c - int k) \<and>
           size_pipe p' = size_pipe p \<and>
           (\<forall>j<k. m' (x + word_of_int (i + int j))
                     = buffer p ! nat ((front p + int j) mod size_pipe p)) \<and>
           (\<forall>a. (\<forall>j<k. a \<noteq> x + word_of_int (i + int j)) \<longrightarrow> m' a = m a)"
  using assms
proof (induction k arbitrary: p c m i)
  case 0
  then show ?case by simp
next
  case (Suc k)
  let ?C = "size_pipe p"
  let ?p1 = "p\<lparr>front := (front p + 1) mod ?C, full := False\<rparr>"
  let ?m1 = "m(x + word_of_int i := buffer p ! nat (front p))"
  from Suc.prems have c: "0 < c" by simp
  from Suc.prems(1) have f: "0 \<le> front p" "front p < ?C"
    by (auto simp: pipe_holds_def pipe_wf_def)
  have st: "read_loop (Suc k) p m x i = read_loop k ?p1 ?m1 x (i + 1)"
    and h1: "pipe_holds ?p1 (c - 1)"
    using read_step [OF Suc.prems(1) c] by simp_all
  have a1: "int k \<le> c - 1" "0 \<le> i + 1" "i + 1 + int k \<le> 2 ^ 32"
    using Suc.prems by simp_all
  have "\<exists>p' m'. read_loop k ?p1 ?m1 x (i + 1) = Inr (p', m', i + 1 + int k) \<and>
          pipe_holds p' (c - 1 - int k) \<and> size_pipe p' = ?C \<and>
          (\<forall>j<k. m' (x + word_of_int (i + 1 + int j))
                      = buffer p ! nat (((front p + 1) mod ?C + int j) mod ?C)) \<and>
          (\<forall>a. (\<forall>j<k. a \<noteq> x + word_of_int (i + 1 + int j)) \<longrightarrow> m' a = ?m1 a)"
    using Suc.IH [OF h1 a1, of ?m1] by (simp del: of_int_add of_int_1 of_int_of_nat_eq fun_upd_apply)
  then obtain p' m' where r: "read_loop k ?p1 ?m1 x (i + 1) = Inr (p', m', i + 1 + int k)"
    "pipe_holds p' (c - 1 - int k)" "size_pipe p' = ?C"
    and got: "\<forall>j<k. m' (x + word_of_int (i + 1 + int j))
                      = buffer p ! nat (((front p + 1) mod ?C + int j) mod ?C)"
    and un: "\<forall>a. (\<forall>j<k. a \<noteq> x + word_of_int (i + 1 + int j)) \<longrightarrow> m' a = ?m1 a"
    by blast
  have sep: "x + word_of_int i \<noteq> x + word_of_int (i + 1 + int j)" if "j < k" for j
  proof -
    have "0 < 1 + int j" "1 + int j < 2 ^ 32" using that Suc.prems(3,4) by simp_all
    from word_shift_neq [OF this, of i] show ?thesis by (simp add: add.assoc)
  qed
  have first: "m' (x + word_of_int i) = buffer p ! nat (front p)"
    using un sep by (metis fun_upd_same)
  have reads: "m' (x + word_of_int (i + int j)) = buffer p ! nat ((front p + int j) mod ?C)"
    if "j < Suc k" for j
  proof (cases j)
    case 0
    then show ?thesis using first f by simp
  next
    case (Suc j')
    then have "j' < k" using that by simp
    with got have "m' (x + word_of_int (i + 1 + int j'))
                     = buffer p ! nat (((front p + 1) mod ?C + int j') mod ?C)" by blast
    then show ?thesis using Suc by (simp add: mod_simps add.assoc add.commute add.left_commute)
  qed
  have unchanged: "m' a = m a" if a: "\<forall>j<Suc k. a \<noteq> x + word_of_int (i + int j)" for a
  proof -
    have a0: "a \<noteq> x + word_of_int i" using a by force
    have "a \<noteq> x + word_of_int (i + 1 + int j)" if "j < k" for j
      using a that by (metis Suc_less_eq add.assoc of_nat_Suc add.commute)
    then have "m' a = ?m1 a" using un by blast
    then show ?thesis using a0 by simp
  qed
  have e1: "i + 1 + int k = i + int (Suc k)" and e2: "c - 1 - int k = c - int (Suc k)"
    by simp_all
  have res: "read_loop (Suc k) p m x i = Inr (p', m', i + int (Suc k))"
    unfolding st using r(1) by (simp only: e1)
  have hold: "pipe_holds p' (c - int (Suc k))"
    using r(2) by (simp only: e2)
  show ?case
    using res hold r(3) reads unchanged by blast
qed

section \<open>Descriptors stored in user memory\<close>

lemma bytes_sum:
  fixes v :: int
  shows "v mod 256 + 256 * (v div 256 mod 256) + 65536 * (v div 65536 mod 256)
         + 16777216 * (v div 16777216 mod 256) = v mod 4294967296"
proof -
  have n: "(65536::int) = 256 * 256" "(16777216::int) = 65536 * 256"
    "(4294967296::int) = 16777216 * 256" by simp_all
  have e1: "v mod 65536 = 256 * (v div 256 mod 256) + v mod 256"
    by (subst n(1), rule zmod_zmult2_eq) simp
  have e2: "v mod 16777216 = 65536 * (v div 65536 mod 256) + v mod 65536"
    by (subst n(2), rule zmod_zmult2_eq) simp
  have e3: "v mod 4294967296 = 16777216 * (v div 16777216 mod 256) + v mod 16777216"
    by (subst n(3), rule zmod_zmult2_eq) simp
  show ?thesis
    unfolding e3 e2 e1 by (simp only: ac_simps)
qed

lemma sint_word_of_int_small:
  assumes "- (2 ^ 31) \<le> v" "v < 2 ^ 31"
  shows "sint (word_of_int v :: u32) = v"
  using assms by (simp add: sint_sbintrunc' signed_take_bit_int_eq_self)

lemma int_bytes_eq:
  "int_bytes v = [word_of_int v, word_of_int (v div 256), word_of_int (v div 65536),
                  word_of_int (v div 16777216)]"
proof -
  have "[0..<4] = [0, 1, 2, 3]" by (simp add: upt_rec)
  then show ?thesis by (simp add: int_bytes_def)
qed

lemma load_store_pair:
  assumes "- (2 ^ 31) \<le> r" "r < 2 ^ 31" "- (2 ^ 31) \<le> w" "w < 2 ^ 31"
  shows "load_int (store_bytes m a (int_bytes r @ int_bytes w)) a = r"
    and "load_int (store_bytes m a (int_bytes r @ int_bytes w)) (a + 4) = w"
proof -
  let ?m = "store_bytes m a (int_bytes r @ int_bytes w)"
  have b: "?m a = word_of_int r" "?m (a + 1) = word_of_int (r div 256)"
    "?m (a + 2) = word_of_int (r div 65536)" "?m (a + 3) = word_of_int (r div 16777216)"
    "?m (a + 4) = word_of_int w" "?m (a + 4 + 1) = word_of_int (w div 256)"
    "?m (a + 4 + 2) = word_of_int (w div 65536)" "?m (a + 4 + 3) = word_of_int (w div 16777216)"
    by (simp_all add: store_bytes_def int_bytes_eq)
  have u: "uint (word_of_int v :: byte) = v mod 256" for v
    by (simp add: uint_word_of_int take_bit_eq_mod)
  have "load_int ?m a = sint (word_of_int (r mod 4294967296) :: u32)"
    unfolding load_int_def b u bytes_sum [of r] ..
  also have "\<dots> = sint (word_of_int r :: u32)"
  proof -
    have "(word_of_int (r mod 4294967296) :: u32) = word_of_int r"
      unfolding word_of_int_eq_iff by (simp add: take_bit_eq_mod)
    then show ?thesis by (rule arg_cong)
  qed
  finally show "load_int ?m a = r" using assms by (simp add: sint_word_of_int_small)
  have "load_int ?m (a + 4) = sint (word_of_int (w mod 4294967296) :: u32)"
    unfolding load_int_def b u bytes_sum [of w] ..
  also have "\<dots> = sint (word_of_int w :: u32)"
  proof -
    have "(word_of_int (w mod 4294967296) :: u32) = word_of_int w"
      unfolding word_of_int_eq_iff by (simp add: take_bit_eq_mod)
    then show ?thesis by (rule arg_cong)
  qed
  finally show "load_int ?m (a + 4) = w" using assms by (simp add: sint_word_of_int_small)
qed

section \<open>write and read on a pipe\<close>

lemma sys_write_pipe:
  assumes "pipe_at s fd a" and "sint (gpr (uctx s) 0) = fd" and "sint (gpr (uctx s) 2) = n"
    and "0 < n" and "get_pipe s a = Inr p"
    and "write_loop (mem s) (nat n) p (gpr (uctx s) 1) 0 = Inr (p', i)"
  shows "sys_write cfg s = Inr (set_gpr0 (word_of_int i) (put_pipe a p' s))"
  using assms by (simp add: sys_write_def pipe_at_def get_file_def Let_def)

lemma sys_read_pipe:
  assumes "pipe_at s fd a" and "sint (gpr (uctx s) 0) = fd" and "sint (gpr (uctx s) 2) = n"
    and "0 < n" and "get_pipe s a = Inr p"
    and "read_loop (nat n) p (mem s) (gpr (uctx s) 1) 0 = Inr (p', m', i)"
  shows "sys_read cfg s = Inr (set_gpr0 (word_of_int i) (put_pipe a p' (s\<lparr>mem := m'\<rparr>)))"
  using assms by (simp add: sys_read_def pipe_at_def get_file_def Let_def)

lemma get_put_pipe:
  assumes "get_pipe s a = Inr p"
  shows "get_pipe (put_pipe a p' s) a = Inr p'"
  using assms by (auto simp: get_pipe_def put_pipe_def split: if_splits option.splits)

lemma put_pipe_same:
  assumes "get_pipe s a = Inr p"
  shows "put_pipe a p s = s"
  using assms
  by (auto simp: get_pipe_def put_pipe_def list_update_same_conv split: if_splits option.splits)

lemma get_pipe_frame [simp]:
  "get_pipe (set_gpr0 v s) a = get_pipe s a"
  "get_pipe (s\<lparr>uctx := c\<rparr>) a = get_pipe s a"
  "get_pipe (s\<lparr>mem := m\<rparr>) a = get_pipe s a"
  by (simp_all add: get_pipe_def set_gpr0_def)

lemma pipe_at_frame [simp]:
  "pipe_at (set_gpr0 v s) fd a = pipe_at s fd a"
  "pipe_at (put_pipe b p s) fd a = pipe_at s fd a"
  "pipe_at (s\<lparr>uctx := c\<rparr>) fd a = pipe_at s fd a"
  "pipe_at (s\<lparr>mem := m\<rparr>) fd a = pipe_at s fd a"
  by (simp_all add: pipe_at_def set_gpr0_def put_pipe_def)

lemma gpr0_set_gpr0 [simp]: "gpr (uctx (set_gpr0 v s)) 0 = v"
  by (simp add: set_gpr0_def)

lemma mem_frame [simp]:
  "mem (set_gpr0 v s) = mem s" "mem (put_pipe b p s) = mem s"
  by (simp_all add: set_gpr0_def put_pipe_def)

text \<open>
  Claim C6: writing exactly \<open>C\<close> bytes into an empty pipe of capacity \<open>C\<close> returns \<open>C\<close> and
  leaves the pipe full; an immediately following write of \<open>n >= 1\<close> bytes to that pipe, whatever
  the user has put into its registers and memory in between, returns 0 and leaves the pipe
  (buffer, front, rear and full) as it was. The capacity fits a C \<open>int\<close>.
\<close>

theorem pipe_fill_then_write:
  assumes "pipe_at s fd a" and "get_pipe s a = Inr p" and "pipe_holds p 0"
    and "size_pipe p < 2 ^ 31"
    and "sint (gpr (uctx s) 0) = fd" and "sint (gpr (uctx s) 2) = size_pipe p"
  shows "\<exists>s1 p1. hilevel_handler_svc cfg s 0x01 = Inr s1 \<and>
           sint (gpr (uctx s1) 0) = size_pipe p \<and> get_pipe s1 a = Inr p1 \<and> full p1 \<and>
           (\<forall>c m. sint (gpr c 0) = fd \<and> 1 \<le> sint (gpr c 2) \<longrightarrow>
              (\<exists>s2. hilevel_handler_svc cfg (s1\<lparr>uctx := c, mem := m\<rparr>) 0x01 = Inr s2 \<and>
                    sint (gpr (uctx s2) 0) = 0 \<and> get_pipe s2 a = Inr p1))"
proof -
  let ?C = "size_pipe p"
  from assms(3) have C: "0 < ?C" by (simp add: pipe_holds_def pipe_wf_def)
  have "0 + int (nat ?C) \<le> ?C" using C by simp
  from write_loop_holds [OF assms(3) this, of "mem s" "gpr (uctx s) 1" 0]
  obtain p1 where p1: "write_loop (mem s) (nat ?C) p (gpr (uctx s) 1) 0 = Inr (p1, ?C)"
    "pipe_holds p1 ?C" "size_pipe p1 = ?C"
    using C by auto
  let ?s1 = "set_gpr0 (word_of_int ?C) (put_pipe a p1 s)"
  have w1: "sys_write cfg s = Inr ?s1"
    by (rule sys_write_pipe [OF assms(1) assms(5) assms(6) C assms(2) p1(1)])
  have r1: "sint (gpr (uctx ?s1) 0) = ?C"
    using C assms(4) by (simp add: sint_word_of_int_small)
  have g1: "get_pipe ?s1 a = Inr p1"
    using get_put_pipe [OF assms(2)] by simp
  have f1: "full p1" using p1(2,3) by (simp add: pipe_holds_def)
  have second: "\<exists>s2. hilevel_handler_svc cfg (?s1\<lparr>uctx := c, mem := m\<rparr>) 0x01 = Inr s2 \<and>
                    sint (gpr (uctx s2) 0) = 0 \<and> get_pipe s2 a = Inr p1"
    if c: "sint (gpr c 0) = fd" "1 \<le> sint (gpr c 2)" for c m
  proof -
    let ?t = "?s1\<lparr>uctx := c, mem := m\<rparr>"
    have pa: "pipe_at ?t fd a" using assms(1) by simp
    have gp: "get_pipe ?t a = Inr p1" using g1 by simp
    obtain r where r: "nat (sint (gpr c 2)) = Suc r" using c(2) by (cases "nat (sint (gpr c 2))") auto
    have wl: "write_loop (mem ?t) (nat (sint (gpr c 2))) p1 (gpr (uctx ?t) 1) 0 = Inr (p1, 0)"
      unfolding r using f1 by simp
    have "sys_write cfg ?t = Inr (set_gpr0 (word_of_int 0) (put_pipe a p1 ?t))"
      by (rule sys_write_pipe [OF pa _ _ _ gp wl]) (use c in simp_all)
    then show ?thesis
      using put_pipe_same [OF gp] gp by (simp add: hilevel_handler_svc_def)
  qed
  show ?thesis
    using w1 r1 g1 f1 second by (auto simp: hilevel_handler_svc_def)
qed

theorem pipe_fill_then_write_witness:
  "\<exists>s1 p1. hilevel_handler_svc cfg0 pipe_state 0x01 = Inr s1 \<and> sint (gpr (uctx s1) 0) = 8 \<and>
      get_pipe s1 1 = Inr p1 \<and> full p1 \<and>
      (\<exists>s2. hilevel_handler_svc cfg0 (s1\<lparr>uctx := call_ctx 4 0x200 1, mem := zero_mem\<rparr>) 0x01 = Inr s2 \<and>
            sint (gpr (uctx s2) 0) = 0 \<and> get_pipe s2 1 = Inr p1)"
proof -
  have a: "pipe_at pipe_state 4 1" "get_pipe pipe_state 1 = Inr (new_pipe cfg0)"
    "pipe_holds (new_pipe cfg0) 0" "size_pipe (new_pipe cfg0) < 2 ^ 31"
    "sint (gpr (uctx pipe_state) 0) = 4" "sint (gpr (uctx pipe_state) 2) = size_pipe (new_pipe cfg0)"
    by (simp_all add: pipe_at_def pipe_state_def pipe_files_def get_pipe_def new_pipe_def cfg0_def
        pipe_holds_def pipe_wf_def call_ctx_def zero_ctx_def)
  from pipe_fill_then_write [OF a, of cfg0]
  obtain s1 p1 where s1: "hilevel_handler_svc cfg0 pipe_state 0x01 = Inr s1"
    "sint (gpr (uctx s1) 0) = size_pipe (new_pipe cfg0)" "get_pipe s1 1 = Inr p1" "full p1"
    and nxt: "\<forall>c m. sint (gpr c 0) = 4 \<and> 1 \<le> sint (gpr c 2) \<longrightarrow>
              (\<exists>s2. hilevel_handler_svc cfg0 (s1\<lparr>uctx := c, mem := m\<rparr>) 0x01 = Inr s2 \<and>
                    sint (gpr (uctx s2) 0) = 0 \<and> get_pipe s2 1 = Inr p1)"
    by blast
  have "sint (gpr (call_ctx 4 0x200 1) 0) = 4 \<and> 1 \<le> sint (gpr (call_ctx 4 0x200 1) 2)"
    by (simp add: call_ctx_def zero_ctx_def)
  with nxt have "\<exists>s2. hilevel_handler_svc cfg0 (s1\<lparr>uctx := call_ctx 4 0x200 1, mem := zero_mem\<rparr>) 0x01 = Inr s2 \<and>
                    sint (gpr (uctx s2) 0) = 0 \<and> get_pipe s2 1 = Inr p1" by blast
  with s1 show ?thesis by (simp add: new_pipe_def cfg0_def)
qed

text \<open>
  A write of \<open>k\<close> bytes into an empty pipe returns \<open>k\<close>, and a later read of \<open>k\<close> bytes through
  a descriptor of the same pipe, in any state that still holds the pipe as the write left it,
  returns \<open>k\<close>, stores the written bytes in order and leaves the pipe empty.
\<close>

lemma pipe_write_then_read:
  assumes w: "pipe_at s wfd a" and g: "get_pipe s a = Inr p"
    and h: "pipe_holds p 0" and k: "int k \<le> size_pipe p" and sz: "size_pipe p < 2 ^ 31"
    and a0: "sint (gpr (uctx s) 0) = wfd" and a2: "sint (gpr (uctx s) 2) = int k"
  shows "\<exists>s1. hilevel_handler_svc cfg s 0x01 = Inr s1 \<and> sint (gpr (uctx s1) 0) = int k \<and>
           openFileTab s1 = openFileTab s \<and>
           (\<forall>u. pipe_at u rfd a \<and> get_pipe u a = get_pipe s1 a \<and>
                sint (gpr (uctx u) 0) = rfd \<and> sint (gpr (uctx u) 2) = int k \<longrightarrow>
              (\<exists>u1. hilevel_handler_svc cfg u 0x02 = Inr u1 \<and>
                    sint (gpr (uctx u1) 0) = int k \<and>
                    (\<forall>j<k. mem u1 (gpr (uctx u) 1 + of_nat j)
                             = mem s (gpr (uctx s) 1 + of_nat j)) \<and>
                    openFileTab u1 = openFileTab u \<and>
                    (\<exists>p2. get_pipe u1 a = Inr p2 \<and> pipe_holds p2 0 \<and>
                          size_pipe p2 = size_pipe p)))"
proof (cases "k = 0")
  case True
  have w1: "sys_write cfg s = Inr (set_gpr0 0 s)"
    using w a0 a2 True by (simp add: sys_write_def pipe_at_def get_file_def Let_def)
  have "sys_read cfg u = Inr (set_gpr0 0 u)"
    if "pipe_at u rfd a" "sint (gpr (uctx u) 0) = rfd" "sint (gpr (uctx u) 2) = int k" for u
    using that True by (simp add: sys_read_def pipe_at_def get_file_def Let_def)
  moreover have "openFileTab (set_gpr0 v x) = openFileTab x" for v x
    by (simp add: set_gpr0_def)
  ultimately show ?thesis
    using w1 True g h by (simp add: hilevel_handler_svc_def)
next
  case False
  then have kp: "0 < int k" by simp
  let ?C = "size_pipe p"
  let ?x = "gpr (uctx s) 1"
  have "0 + int k \<le> ?C" using k by simp
  from write_loop_holds [OF h this, of "mem s" ?x 0]
  obtain p1 where p1: "write_loop (mem s) k p ?x 0 = Inr (p1, int k)" "pipe_holds p1 (int k)"
    "front p1 = front p" "size_pipe p1 = ?C"
    and wr: "\<forall>j<k. buffer p1 ! nat ((front p + int j) mod ?C) = mem s (?x + of_nat j)"
    by auto
  let ?s1 = "set_gpr0 (word_of_int (int k)) (put_pipe a p1 s)"
  have wl: "write_loop (mem s) (nat (int k)) p ?x 0 = Inr (p1, int k)" using p1(1) by simp
  have w1: "sys_write cfg s = Inr ?s1"
    by (rule sys_write_pipe [OF w a0 a2 kp g wl])
  have ks: "- (2 ^ 31) \<le> int k" "int k < 2 ^ 31" using k sz by simp_all
  have r1: "sint (gpr (uctx ?s1) 0) = int k"
    using ks by (simp add: sint_word_of_int_small del: of_int_of_nat_eq)
  have g1: "get_pipe ?s1 a = Inr p1" using get_put_pipe [OF g] by simp
  have second: "\<exists>u1. hilevel_handler_svc cfg u 0x02 = Inr u1 \<and>
                    sint (gpr (uctx u1) 0) = int k \<and>
                    (\<forall>j<k. mem u1 (gpr (uctx u) 1 + of_nat j) = mem s (?x + of_nat j)) \<and>
                    openFileTab u1 = openFileTab u \<and>
                    (\<exists>p2. get_pipe u1 a = Inr p2 \<and> pipe_holds p2 0 \<and> size_pipe p2 = ?C)"
    if pa: "pipe_at u rfd a" and gu: "get_pipe u a = get_pipe ?s1 a"
      and c: "sint (gpr (uctx u) 0) = rfd" "sint (gpr (uctx u) 2) = int k" for u
  proof -
    have gp: "get_pipe u a = Inr p1" using gu g1 by simp
    have b: "int k \<le> int k" "(0::int) \<le> 0" "0 + int k \<le> 2 ^ 32" using ks by simp_all
    from read_loop_holds [OF p1(2) b, of "mem u" "gpr (uctx u) 1"]
    obtain p2 m2 where rl: "read_loop k p1 (mem u) (gpr (uctx u) 1) 0 = Inr (p2, m2, int k)"
      and e2: "pipe_holds p2 0" "size_pipe p2 = ?C"
      and rd: "\<forall>j<k. m2 (gpr (uctx u) 1 + word_of_int (int j))
                       = buffer p1 ! nat ((front p1 + int j) mod ?C)"
      using p1(4) by auto
    have rl': "read_loop (nat (int k)) p1 (mem u) (gpr (uctx u) 1) 0 = Inr (p2, m2, int k)"
      using rl by simp
    let ?u1 = "set_gpr0 (word_of_int (int k)) (put_pipe a p2 (u\<lparr>mem := m2\<rparr>))"
    have rr: "sys_read cfg u = Inr ?u1"
      by (rule sys_read_pipe [OF pa c kp gp rl'])
    have bytes: "m2 (gpr (uctx u) 1 + of_nat j) = mem s (?x + of_nat j)" if "j < k" for j
      using rd wr that p1(3) by simp
    have "get_pipe (u\<lparr>mem := m2\<rparr>) a = Inr p1" using gp by simp
    from get_put_pipe [OF this] have g2: "get_pipe ?u1 a = Inr p2" by simp
    have o2: "openFileTab ?u1 = openFileTab u" by (simp add: set_gpr0_def put_pipe_def)
    have r2: "sint (gpr (uctx ?u1) 0) = int k"
      using ks by (simp add: sint_word_of_int_small del: of_int_of_nat_eq)
    have m2: "mem ?u1 = m2" by simp
    show ?thesis
      unfolding hilevel_handler_svc_def using rr r2 g2 o2 e2 bytes m2 by simp
  qed
  have o1: "openFileTab ?s1 = openFileTab s" by (simp add: set_gpr0_def put_pipe_def)
  show ?thesis
    using w1 r1 o1 second by (auto simp: hilevel_handler_svc_def)
qed

lemma open_fd_slot_frame:
  assumes "open_fd_slot s js fd = Inr s'"
  shows "openFileTab s' = openFileTab s \<and> heap s' = heap s \<and> mem s' = mem s \<and> uctx s' = uctx s"
  using assms
proof (induction js)
  case Nil
  then show ?case by simp
next
  case (Cons j js)
  then show ?case
    by (auto simp: thenR_eq_Inr set_proc_fd_def set_proc_def split: if_splits prod.splits)
qed

lemma open_fd_loop_result:
  assumes "open_fd_loop cfg s xs p fl = Inr (s', fd)"
  shows "(fd = - 1 \<and> s' = s) \<or>
         (\<exists>i \<in> set xs. fd = int i \<and> i < length (openFileTab s) \<and>
            refCount (openFileTab s ! i) = 0 \<and>
            openFileTab s' = (openFileTab s)[i := (openFileTab s ! i)\<lparr>file_ptr := p, flag := fl, refCount := 1\<rparr>] \<and>
            heap s' = heap s \<and> mem s' = mem s \<and> uctx s' = uctx s)"
  using assms
proof (induction xs)
  case Nil
  then show ?case by simp
next
  case (Cons i xs)
  show ?case
  proof (cases "i < length (openFileTab s) \<and> refCount (openFileTab s ! i) = 0")
    case True
    let ?s1 = "s\<lparr>openFileTab := (openFileTab s)[i := (openFileTab s ! i)\<lparr>file_ptr := p, flag := fl, refCount := 1\<rparr>]\<rparr>"
    have eq: "open_fd_loop cfg s (i # xs) p fl
                = thenR (open_fd_slot ?s1 [0..<MAX_FDS cfg] (int i)) (\<lambda>s2. Inr (s2, int i))"
      using True by (simp add: get_file_def set_file_def)
    from Cons.prems [unfolded eq] obtain s2 where
      s2: "open_fd_slot ?s1 [0..<MAX_FDS cfg] (int i) = Inr s2" and e: "s' = s2" "fd = int i"
      unfolding thenR_eq_Inr by blast
    from open_fd_slot_frame [OF s2] True e show ?thesis by simp
  next
    case False
    have "open_fd_loop cfg s (i # xs) p fl
            = (if i < length (openFileTab s) then open_fd_loop cfg s xs p fl else Inl OutOfBounds)"
      using False by (simp add: get_file_def)
    with Cons.prems have "open_fd_loop cfg s xs p fl = Inr (s', fd)"
      by (simp split: if_splits)
    from Cons.IH [OF this] show ?thesis by auto
  qed
qed

text \<open>What a successful \<open>pipe()\<close> leaves: two distinct descriptors of one new, empty pipe.\<close>

lemma new_pipe_empty:
  assumes "0 < BUF_SIZE cfg"
  shows "pipe_holds (new_pipe cfg) 0"
  using assms by (simp add: pipe_holds_def pipe_wf_def new_pipe_def)

lemma sys_pipe_success:
  assumes run: "sys_pipe cfg s = Inr s'" and ok: "gpr (uctx s') 0 = 0"
    and fds: "MAX_FDS cfg < 2 ^ 31"
  shows "\<exists>rfd wfd. load_int (mem s') (gpr (uctx s) 0) = rfd \<and>
           load_int (mem s') (gpr (uctx s) 0 + 4) = wfd \<and> rfd \<noteq> wfd \<and>
           pipe_at s' rfd (length (heap s) + 1) \<and> pipe_at s' wfd (length (heap s) + 1) \<and>
           get_pipe s' (length (heap s) + 1) = Inr (new_pipe cfg)"
proof -
  let ?a = "length (heap s) + 1"
  let ?s0 = "s\<lparr>heap := heap s @ [Some (new_pipe cfg)]\<rparr>"
  from run obtain s1 fr where o1: "open_fd cfg ?s0 ?a RDONLY = Inr (s1, fr)"
    by (cases "open_fd cfg ?s0 ?a RDONLY") (auto simp: sys_pipe_def malloc_def Let_def)
  from run o1 obtain s2 fw where o2: "open_fd cfg s1 ?a WRONLY = Inr (s2, fw)"
    by (cases "open_fd cfg s1 ?a WRONLY") (auto simp: sys_pipe_def malloc_def Let_def)
  have nofail: "\<not> (fr = - 1 \<or> fw = - 1)"
  proof
    assume "fr = - 1 \<or> fw = - 1"
    with run o1 o2 have "gpr (uctx s') 0 = - 1"
      by (auto simp: sys_pipe_def malloc_def Let_def thenR_eq_Inr split: prod.splits if_splits)
    with ok show False by simp
  qed
  then have s': "s' = set_gpr0 0 (s2\<lparr>mem := store_bytes (mem s2) (gpr (uctx s) 0)
                                          (int_bytes fr @ int_bytes fw)\<rparr>)"
    using run o1 o2 by (simp add: sys_pipe_def malloc_def Let_def)
  from open_fd_loop_result [OF o1 [unfolded open_fd_def]] nofail
  obtain i where i: "i \<in> set [3..<MAX_FDS cfg]" "fr = int i" "i < length (openFileTab ?s0)"
    "openFileTab s1 = (openFileTab ?s0)[i := (openFileTab ?s0 ! i)\<lparr>file_ptr := ?a, flag := RDONLY, refCount := 1\<rparr>]"
    "heap s1 = heap ?s0"
    by auto
  from open_fd_loop_result [OF o2 [unfolded open_fd_def]] nofail
  obtain j where j: "j \<in> set [3..<MAX_FDS cfg]" "fw = int j" "j < length (openFileTab s1)"
    "refCount (openFileTab s1 ! j) = 0"
    "openFileTab s2 = (openFileTab s1)[j := (openFileTab s1 ! j)\<lparr>file_ptr := ?a, flag := WRONLY, refCount := 1\<rparr>]"
    "heap s2 = heap s1"
    by auto
  have ij: "i \<noteq> j" using i(3,4) j(4) by auto
  have bi: "- (2 ^ 31) \<le> fr" "fr < 2 ^ 31" "- (2 ^ 31) \<le> fw" "fw < 2 ^ 31"
    using i(1,2) j(1,2) fds by auto
  have l1: "load_int (mem s') (gpr (uctx s) 0) = fr"
    and l2: "load_int (mem s') (gpr (uctx s) 0 + 4) = fw"
    unfolding s' using load_store_pair [OF bi] by simp_all
  have p1: "pipe_at s' fr ?a"
    unfolding s' using i j ij bi by (simp add: pipe_at_def set_gpr0_def)
  have p2: "pipe_at s' fw ?a"
    unfolding s' using i j ij bi by (simp add: pipe_at_def set_gpr0_def)
  have gp: "get_pipe s' ?a = Inr (new_pipe cfg)"
    unfolding s' using i(5) j(6) by (simp add: get_pipe_def set_gpr0_def)
  show ?thesis
    using l1 l2 p1 p2 gp ij i(2) j(2) by simp
qed

text \<open>
  Claim C1: let \<open>pipe()\<close> return 0 in state \<open>s\<close>, with the descriptors \<open>rfd\<close> and \<open>wfd\<close> stored
  at the user's pair; they refer to one new pipe, at address \<open>a\<close>, which is empty. Let \<open>k\<close> be
  at most the capacity of the buffer. In every state \<open>t\<close> in which that pipe is empty, whatever
  the position of \<open>front\<close>, \<open>write(wfd, buf, k)\<close> returns \<open>k\<close>; and in every state \<open>u\<close> that
  holds the pipe as that write left it (no pipe operation in between), \<open>read(rfd, out, k)\<close>
  returns \<open>k\<close>, \<open>out[0..k)\<close> holds the bytes of \<open>buf[0..k)\<close> in the same order, and the pipe is
  empty again. The capacities fit a C \<open>int\<close>.
\<close>

theorem pipe_round_trip:
  assumes "hilevel_handler_svc cfg s0 0x08 = Inr s" and "gpr (uctx s) 0 = 0"
    and "0 < BUF_SIZE cfg" and "BUF_SIZE cfg < 2 ^ 31" and "MAX_FDS cfg < 2 ^ 31"
    and "k \<le> BUF_SIZE cfg" and "a = length (heap s0) + 1"
  shows "\<exists>rfd wfd.
           load_int (mem s) (gpr (uctx s0) 0) = rfd \<and>
           load_int (mem s) (gpr (uctx s0) 0 + 4) = wfd \<and>
           pipe_at s rfd a \<and> pipe_at s wfd a \<and>
           get_pipe s a = Inr (new_pipe cfg) \<and> pipe_holds (new_pipe cfg) 0 \<and>
           (\<forall>t p. pipe_at t wfd a \<and> get_pipe t a = Inr p \<and> pipe_holds p 0 \<and>
                size_pipe p = int (BUF_SIZE cfg) \<and>
                sint (gpr (uctx t) 0) = wfd \<and> sint (gpr (uctx t) 2) = int k \<longrightarrow>
              (\<exists>t1. hilevel_handler_svc cfg t 0x01 = Inr t1 \<and> sint (gpr (uctx t1) 0) = int k \<and>
                 openFileTab t1 = openFileTab t \<and>
                 (\<forall>u. pipe_at u rfd a \<and> get_pipe u a = get_pipe t1 a \<and>
                      sint (gpr (uctx u) 0) = rfd \<and> sint (gpr (uctx u) 2) = int k \<longrightarrow>
                    (\<exists>u1. hilevel_handler_svc cfg u 0x02 = Inr u1 \<and>
                          sint (gpr (uctx u1) 0) = int k \<and>
                          (\<forall>j<k. mem u1 (gpr (uctx u) 1 + of_nat j)
                                   = mem t (gpr (uctx t) 1 + of_nat j)) \<and>
                          openFileTab u1 = openFileTab u \<and>
                          (\<exists>p2. get_pipe u1 a = Inr p2 \<and> pipe_holds p2 0 \<and>
                                size_pipe p2 = int (BUF_SIZE cfg))))))"
proof -
  have run: "sys_pipe cfg s0 = Inr s" using assms(1) by (simp add: hilevel_handler_svc_def)
  from sys_pipe_success [OF run assms(2) assms(5)]
  obtain rfd wfd where f: "load_int (mem s) (gpr (uctx s0) 0) = rfd"
    "load_int (mem s) (gpr (uctx s0) 0 + 4) = wfd"
    "pipe_at s rfd a" "pipe_at s wfd a"
    "get_pipe s a = Inr (new_pipe cfg)"
    unfolding assms(7) by blast
  have h: "pipe_holds (new_pipe cfg) 0" by (rule new_pipe_empty [OF assms(3)])
  have rw: "\<exists>t1. hilevel_handler_svc cfg t 0x01 = Inr t1 \<and> sint (gpr (uctx t1) 0) = int k \<and>
                 openFileTab t1 = openFileTab t \<and>
                 (\<forall>u. pipe_at u rfd a \<and> get_pipe u a = get_pipe t1 a \<and>
                      sint (gpr (uctx u) 0) = rfd \<and> sint (gpr (uctx u) 2) = int k \<longrightarrow>
                    (\<exists>u1. hilevel_handler_svc cfg u 0x02 = Inr u1 \<and>
                          sint (gpr (uctx u1) 0) = int k \<and>
                          (\<forall>j<k. mem u1 (gpr (uctx u) 1 + of_nat j)
                                   = mem t (gpr (uctx t) 1 + of_nat j)) \<and>
                          openFileTab u1 = openFileTab u \<and>
                          (\<exists>p2. get_pipe u1 a = Inr p2 \<and> pipe_holds p2 0 \<and>
                                size_pipe p2 = int (BUF_SIZE cfg))))"
    if t: "pipe_at t wfd a" "get_pipe t a = Inr p" "pipe_holds p 0"
      "size_pipe p = int (BUF_SIZE cfg)"
      "sint (gpr (uctx t) 0) = wfd" "sint (gpr (uctx t) 2) = int k" for t p
  proof -
    have k: "int k \<le> size_pipe p" and sz: "size_pipe p < 2 ^ 31"
      using assms(4,6) t(4) by simp_all
    from pipe_write_then_read [OF t(1) t(2) t(3) k sz t(5) t(6), of cfg rfd]
    show ?thesis unfolding t(4) .
  qed
  show ?thesis
    using f h rw by blast
qed

lemma pipe_call_runs:
  "\<exists>s. hilevel_handler_svc cfg0 pipe_call_state 0x08 = Inr s \<and> gpr (uctx s) 0 = 0"
  by (simp add: hilevel_handler_svc_def sys_pipe_def malloc_def open_fd_def pipe_call_state_def
      single_state_def cfg0_def std_files_def mk_pcb_def no_fds_def call_ctx_def zero_ctx_def
      get_file_def set_file_def get_executing_def get_proc_def get_fd_def set_proc_fd_def
      set_proc_def set_fd_def set_gpr0_def Let_def upt_rec)

lemma pipe_at_cong: "openFileTab t = openFileTab s \<Longrightarrow> pipe_at t fd a = pipe_at s fd a"
  by (simp add: pipe_at_def)

theorem pipe_round_trip_witness:
  "front drained_pipe = 5 \<and> rear drained_pipe = 4 \<and> size_pipe drained_pipe = 8 \<and>
   (\<exists>s t1 u1.
     hilevel_handler_svc cfg0 pipe_call_state 0x08 = Inr s \<and> gpr (uctx s) 0 = 0 \<and>
     hilevel_handler_svc cfg0
       ((put_pipe 1 drained_pipe s)
          \<lparr>uctx := call_ctx (word_of_int (load_int (mem s) 0x104)) 0x200 5, mem := hello_mem\<rparr>)
       0x01 = Inr t1 \<and>
     sint (gpr (uctx t1) 0) = 5 \<and>
     hilevel_handler_svc cfg0
       (t1\<lparr>uctx := call_ctx (word_of_int (load_int (mem s) 0x100)) 0x300 5\<rparr>) 0x02 = Inr u1 \<and>
     sint (gpr (uctx u1) 0) = 5 \<and>
     map (mem u1) [0x300, 0x301, 0x302, 0x303, 0x304] = [72, 69, 76, 76, 79])"
proof -
  from pipe_call_runs obtain s where
    s: "hilevel_handler_svc cfg0 pipe_call_state 0x08 = Inr s" "gpr (uctx s) 0 = 0" by blast
  have c: "0 < BUF_SIZE cfg0" "BUF_SIZE cfg0 < 2 ^ 31" "MAX_FDS cfg0 < 2 ^ 31" "5 \<le> BUF_SIZE cfg0"
    "1 = length (heap pipe_call_state) + 1"
    by (simp_all add: cfg0_def pipe_call_state_def single_state_def)
  have p: "gpr (uctx pipe_call_state) 0 = 0x100"
    by (simp add: pipe_call_state_def call_ctx_def zero_ctx_def)
  have d: "front drained_pipe = 5" "rear drained_pipe = 4" "size_pipe drained_pipe = 8"
    "pipe_holds drained_pipe 0" "size_pipe drained_pipe = int (BUF_SIZE cfg0)"
    by (simp_all add: drained_pipe_def new_pipe_def cfg0_def pipe_holds_def pipe_wf_def)
  from pipe_round_trip [OF s c, unfolded p]
  obtain rfd wfd where f: "load_int (mem s) 0x100 = rfd" "load_int (mem s) (0x100 + 4) = wfd"
    and pa: "pipe_at s rfd 1" "pipe_at s wfd 1"
    and gs: "get_pipe s 1 = Inr (new_pipe cfg0)"
    and W: "\<forall>t p. pipe_at t wfd 1 \<and> get_pipe t 1 = Inr p \<and> pipe_holds p 0 \<and>
                size_pipe p = int (BUF_SIZE cfg0) \<and>
                sint (gpr (uctx t) 0) = wfd \<and> sint (gpr (uctx t) 2) = int 5 \<longrightarrow>
              (\<exists>t1. hilevel_handler_svc cfg0 t 0x01 = Inr t1 \<and> sint (gpr (uctx t1) 0) = int 5 \<and>
                 openFileTab t1 = openFileTab t \<and>
                 (\<forall>u. pipe_at u rfd 1 \<and> get_pipe u 1 = get_pipe t1 1 \<and>
                      sint (gpr (uctx u) 0) = rfd \<and> sint (gpr (uctx u) 2) = int 5 \<longrightarrow>
                    (\<exists>u1. hilevel_handler_svc cfg0 u 0x02 = Inr u1 \<and>
                          sint (gpr (uctx u1) 0) = int 5 \<and>
                          (\<forall>j<5. mem u1 (gpr (uctx u) 1 + of_nat j)
                                   = mem t (gpr (uctx t) 1 + of_nat j)) \<and>
                          openFileTab u1 = openFileTab u \<and>
                          (\<exists>p2. get_pipe u1 1 = Inr p2 \<and> pipe_holds p2 0 \<and>
                                size_pipe p2 = int (BUF_SIZE cfg0)))))"
    by blast
  have rb: "- (2 ^ 31) \<le> rfd" "rfd < 2 ^ 31" and wb: "- (2 ^ 31) \<le> wfd" "wfd < 2 ^ 31"
    using pa by (simp_all add: pipe_at_def)
  let ?t = "(put_pipe 1 drained_pipe s)\<lparr>uctx := call_ctx (word_of_int wfd) 0x200 5, mem := hello_mem\<rparr>"
  have gt: "get_pipe ?t 1 = Inr drained_pipe" using get_put_pipe [OF gs] by simp
  have "pipe_at ?t wfd 1 \<and> get_pipe ?t 1 = Inr drained_pipe \<and> pipe_holds drained_pipe 0 \<and>
        size_pipe drained_pipe = int (BUF_SIZE cfg0) \<and>
        sint (gpr (uctx ?t) 0) = wfd \<and> sint (gpr (uctx ?t) 2) = int 5"
    using pa(2) wb gt d(4,5) by (simp add: call_ctx_def zero_ctx_def sint_word_of_int_small)
  with W obtain t1 where t1: "hilevel_handler_svc cfg0 ?t 0x01 = Inr t1"
    "sint (gpr (uctx t1) 0) = int 5" "openFileTab t1 = openFileTab ?t"
    and R: "\<forall>u. pipe_at u rfd 1 \<and> get_pipe u 1 = get_pipe t1 1 \<and>
                      sint (gpr (uctx u) 0) = rfd \<and> sint (gpr (uctx u) 2) = int 5 \<longrightarrow>
                    (\<exists>u1. hilevel_handler_svc cfg0 u 0x02 = Inr u1 \<and>
                          sint (gpr (uctx u1) 0) = int 5 \<and>
                          (\<forall>j<5. mem u1 (gpr (uctx u) 1 + of_nat j)
                                   = mem ?t (gpr (uctx ?t) 1 + of_nat j)) \<and>
                          openFileTab u1 = openFileTab u \<and>
                          (\<exists>p2. get_pipe u1 1 = Inr p2 \<and> pipe_holds p2 0 \<and>
                                size_pipe p2 = int (BUF_SIZE cfg0)))"
    by blast
  let ?u = "t1\<lparr>uctx := call_ctx (word_of_int rfd) 0x300 5\<rparr>"
  have "pipe_at t1 rfd 1" using pa(1) t1(3) by (simp add: pipe_at_def put_pipe_def)
  then have "pipe_at ?u rfd 1 \<and> get_pipe ?u 1 = get_pipe t1 1 \<and>
        sint (gpr (uctx ?u) 0) = rfd \<and> sint (gpr (uctx ?u) 2) = int 5"
    using rb by (simp add: call_ctx_def zero_ctx_def sint_word_of_int_small)
  with R obtain u1 where u1: "hilevel_handler_svc cfg0 ?u 0x02 = Inr u1"
    "sint (gpr (uctx u1) 0) = int 5"
    and bytes: "\<forall>j<5. mem u1 (gpr (uctx ?u) 1 + of_nat j) = mem ?t (gpr (uctx ?t) 1 + of_nat j)"
    by blast
  have b: "mem u1 (0x300 + of_nat j) = hello_mem (0x200 + of_nat j)" if "j < 5" for j
    using bytes that by (simp add: call_ctx_def zero_ctx_def)
  have "mem u1 0x300 = 72" "mem u1 0x301 = 69" "mem u1 0x302 = 76" "mem u1 0x303 = 76"
    "mem u1 0x304 = 79"
    using b [of 0] b [of 1] b [of 2] b [of 3] b [of 4]
    by (simp_all add: hello_mem_def store_bytes_def)
  then show ?thesis
    using s t1(1,2) u1 f d(1-3) by auto
qed

section \<open>kill\<close>

lemma only_fds_refl: "only_fds n s s"
  by (auto simp: only_fds_def intro: exI [of _ "fdTab (procTab s ! n)"])

lemma only_fds_trans:
  assumes "only_fds n s t" "only_fds n t u"
  shows "only_fds n s u"
proof -
  have "\<exists>fds. procTab u ! n = (procTab s ! n)\<lparr>fdTab := fds\<rparr> \<and>
               length fds = length (fdTab (procTab s ! n))"
    if n: "n < length (procTab s)"
  proof -
    from assms(1) n obtain f1 where f1: "procTab t ! n = (procTab s ! n)\<lparr>fdTab := f1\<rparr>"
      "length f1 = length (fdTab (procTab s ! n))" by (auto simp: only_fds_def)
    from assms(1,2) n obtain f2 where f2: "procTab u ! n = (procTab t ! n)\<lparr>fdTab := f2\<rparr>"
      "length f2 = length (fdTab (procTab t ! n))" by (auto simp: only_fds_def)
    from f1 f2 show ?thesis by (intro exI [of _ f2]) simp
  qed
  then show ?thesis using assms by (auto simp: only_fds_def)
qed

lemma only_fds_set_proc_fd:
  assumes "set_proc_fd s pd i v = Inr t" and "0 \<le> pd"
  shows "only_fds (nat pd) s t"
  using assms
  by (auto simp: set_proc_fd_def set_proc_def get_proc_def set_fd_def only_fds_def thenR_eq_Inr
      split: if_splits)

lemma only_fds_set_file:
  assumes "set_file s fd f = Inr t"
  shows "only_fds n s t"
  using assms
  by (auto simp: set_file_def only_fds_def split: if_splits intro: exI [of _ "fdTab (procTab s ! n)"])

lemma only_fds_free: "free a s = Inr t \<Longrightarrow> only_fds n s t"
  by (auto simp: free_def only_fds_def split: if_splits option.splits
      intro: exI [of _ "fdTab (procTab s ! n)"])

lemma get_proc_nonneg: "get_proc s pd = Inr q \<Longrightarrow> 0 \<le> pd \<and> pd < int (length (procTab s))"
  by (simp add: get_proc_def split: if_splits)

lemma only_fds_close_fd:
  assumes "close_fd cfg s fd pd = Inr (t, r)" and "0 \<le> pd"
  shows "only_fds (nat pd) s t"
proof (cases "0 \<le> fd \<and> fd < int (MAX_FDS cfg)")
  case False
  with assms show ?thesis by (auto simp: close_fd_def only_fds_refl)
next
  case True
  let ?body = "\<lambda>i t. thenR (get_proc t pd)
                 (\<lambda>q. thenR (get_fd q i)
                    (\<lambda>v. if v = fd then set_proc_fd t pd i (- 1) else Inr t))"
  have "close_fd cfg s fd pd =
          thenR (for_loop [0..<MAX_FDS cfg] ?body s)
            (\<lambda>s1. thenR (set_file s1 fd (\<lambda>f. f\<lparr>refCount := refCount f - 1\<rparr>))
            (\<lambda>s2. thenR (get_file s2 fd)
            (\<lambda>f. thenR (if refCount f \<le> 0 then free (file_ptr f) s2 else Inr s2)
            (\<lambda>s3. Inr (s3, 0)))))"
    using True by (simp add: close_fd_def)
  with assms(1) have "\<exists>s1 s2. for_loop [0..<MAX_FDS cfg] ?body s = Inr s1 \<and>
      set_file s1 fd (\<lambda>f. f\<lparr>refCount := refCount f - 1\<rparr>) = Inr s2 \<and>
      (t = s2 \<or> (\<exists>a. free a s2 = Inr t))"
    by (auto simp: thenR_eq_Inr split: if_splits)
  then obtain s1 s2 where
    l: "for_loop [0..<MAX_FDS cfg] ?body s = Inr s1"
    and s2: "set_file s1 fd (\<lambda>f. f\<lparr>refCount := refCount f - 1\<rparr>) = Inr s2"
    and t: "t = s2 \<or> (\<exists>a. free a s2 = Inr t)"
    by blast
  have step: "only_fds (nat pd) s u'" if "only_fds (nat pd) s u" "?body i u = Inr u'" for i u u'
  proof -
    from that(2) have "u' = u \<or> set_proc_fd u pd i (- 1) = Inr u'"
      by (auto simp: thenR_eq_Inr split: if_splits)
    then show ?thesis
      using that(1) only_fds_set_proc_fd [OF _ assms(2)] only_fds_trans by blast
  qed
  have "only_fds (nat pd) s s1"
    by (rule for_loop_inv [OF l, where P = "only_fds (nat pd) s"]) (auto intro: only_fds_refl step)
  moreover have "only_fds (nat pd) s1 s2" by (rule only_fds_set_file [OF s2])
  moreover have "only_fds (nat pd) s2 t" using t by (auto simp: only_fds_free only_fds_refl)
  ultimately show ?thesis by (blast intro: only_fds_trans)
qed

text \<open>The loops of \<open>exit\<close> and \<open>kill\<close> over the descriptors of slot \<open>pd\<close>.\<close>

lemma only_fds_kill_loop:
  assumes "for_loop ixs
             (\<lambda>i t. thenR (get_proc t pd)
                (\<lambda>q. thenR (get_fd q i)
                   (\<lambda>fd. if fd \<ge> 0
                         then thenR (close_fd cfg t fd pd) (\<lambda>(t1, r). Inr t1)
                         else Inr t)))
             s = Inr s'"
    and "0 \<le> pd"
  shows "only_fds (nat pd) s s'"
proof (rule for_loop_inv [OF assms(1), where P = "only_fds (nat pd) s"])
  show "only_fds (nat pd) s s" by (rule only_fds_refl)
next
  fix i t t'
  assume t: "only_fds (nat pd) s t"
    and b: "thenR (get_proc t pd)
              (\<lambda>q. thenR (get_fd q i)
                 (\<lambda>fd. if fd \<ge> 0
                       then thenR (close_fd cfg t fd pd) (\<lambda>(t1, r). Inr t1)
                       else Inr t)) = Inr t'"
  from b have "t' = t \<or> (\<exists>fd r. close_fd cfg t fd pd = Inr (t', r))"
    by (auto simp: thenR_eq_Inr split: if_splits)
  then show "only_fds (nat pd) s t'"
    using t only_fds_close_fd [OF _ assms(2)] only_fds_trans by blast
qed

lemma for_loop_upt_total:
  assumes "Q 0 s"
    and "\<And>i t. i < n \<Longrightarrow> Q i t \<Longrightarrow> \<exists>t'. body i t = Inr t' \<and> Q (Suc i) t'"
  shows "\<exists>s'. for_loop [0..<n] body s = Inr s' \<and> Q n s'"
  using assms(2)
proof (induction n)
  case 0
  show ?case using assms(1) by simp
next
  case (Suc n)
  have "\<exists>s'. for_loop [0..<n] body s = Inr s' \<and> Q n s'"
    by (rule Suc.IH) (simp add: Suc.prems)
  then obtain s1 where s1: "for_loop [0..<n] body s = Inr s1" "Q n s1" by blast
  from Suc.prems [of n s1] s1(2) obtain s2 where s2: "body n s1 = Inr s2" "Q (Suc n) s2" by auto
  show ?case unfolding for_loop_upt_Suc s1(1) using s2 by simp
qed

lemma close_result_Inr:
  assumes "close_result t v pd = Inr t'"
  shows "procTab t' = procTab (wipe_proc t pd (wipe_fd v (fdTab (procTab t ! nat pd))))"
    and "openFileTab t'
           = (openFileTab t)[nat v := (openFileTab t ! nat v)
                                       \<lparr>refCount := refCount (openFileTab t ! nat v) - 1\<rparr>]"
    and "heap t' = (if refCount (openFileTab t ! nat v) \<le> 1
                    then released (file_ptr (openFileTab t ! nat v)) (heap t) else heap t)"
  using assms
  by (auto simp: close_result_def Let_def wipe_proc_def dest!: free_Inr split: if_splits)

lemma close_result_total:
  assumes "refCount (openFileTab t ! nat v) \<le> 1 \<longrightarrow> can_free t (file_ptr (openFileTab t ! nat v))"
  shows "\<exists>t'. close_result t v pd = Inr t'"
proof (cases "refCount (openFileTab t ! nat v) \<le> 1")
  case True
  let ?s2 = "(wipe_proc t pd (wipe_fd v (fdTab (procTab t ! nat pd))))
               \<lparr>openFileTab := (openFileTab t)[nat v := (openFileTab t ! nat v)
                                   \<lparr>refCount := refCount (openFileTab t ! nat v) - 1\<rparr>]\<rparr>"
  from assms True have "can_free ?s2 (file_ptr (openFileTab t ! nat v))"
    by (simp add: can_free_def wipe_proc_def)
  from free_eq [OF this] True show ?thesis by (simp add: close_result_def Let_def)
next
  case False
  then show ?thesis by (simp add: close_result_def Let_def)
qed

lemma released_nth: "a < length h \<Longrightarrow> released p h ! a = (if Suc a = p then None else h ! a)"
  by (auto simp: released_def nth_list_update)

lemma length_released: "length (released p h) = length h"
  by (simp add: released_def)

lemma closed_fds_Suc:
  assumes "i < length fds"
  shows "closed_fds M (Suc i) fds
           = closed_fds M i fds \<union> (if 0 \<le> fds ! i \<and> fds ! i < int M then {fds ! i} else {})"
  using assms by (auto simp: closed_fds_def take_Suc_conv_app_nth)

lemma kill_step:
  assumes ok: "kill_ok cfg s pd" and i: "i < MAX_FDS cfg" and inv: "kill_inv cfg s pd i t"
  shows "\<exists>t'. thenR (get_proc t pd)
                (\<lambda>q. thenR (get_fd q i)
                   (\<lambda>fd. if fd \<ge> 0
                         then thenR (close_fd cfg t fd pd) (\<lambda>(t1, r). Inr t1)
                         else Inr t)) = Inr t' \<and>
              kill_inv cfg s pd (Suc i) t'"
proof -
  let ?n = "nat pd"
  let ?M = "MAX_FDS cfg"
  let ?fds = "fdTab (procTab s ! ?n)"
  let ?cl = "\<lambda>k. closed_fds ?M k ?fds"
  let ?H = "held_fds cfg s pd"
  from ok have pd: "0 \<le> pd" "pd < int (length (procTab s))" and lf: "length ?fds = ?M"
    and lo: "length (openFileTab s) = ?M"
    and cfo: "\<forall>v \<in> last_refs s ?H. can_free s (ptr_of s v)"
    and dist: "\<forall>v \<in> last_refs s ?H. \<forall>w \<in> last_refs s ?H.
                v \<noteq> w \<and> ptr_of s v \<noteq> 0 \<longrightarrow> ptr_of s v \<noteq> ptr_of s w"
    by (auto simp: kill_ok_def)
  from inv have of: "only_fds ?n s t"
    and tab: "fdTab (procTab t ! ?n) = map (\<lambda>v. if v \<in> ?cl i then - 1 else v) ?fds"
    and files: "\<forall>f < ?M. openFileTab t ! f
          = (openFileTab s ! f)\<lparr>refCount := refCount (openFileTab s ! f)
                 - (if int f \<in> ?cl i then 1 else 0)\<rparr>"
    and hl: "length (heap t) = length (heap s)"
    and hc: "\<forall>a < length (heap s).
               heap t ! a = (if Suc a \<in> ptr_of s ` last_refs s (?cl i) then None else heap s ! a)"
    by (auto simp: kill_inv_def)
  from of pd have lt: "length (procTab t) = length (procTab s)"
    and lot: "length (openFileTab t) = ?M" using lo by (auto simp: only_fds_def)
  have lft: "length (fdTab (procTab t ! ?n)) = ?M" using tab lf by simp
  have gp: "get_proc t pd = Inr (procTab t ! ?n)" using pd lt by (simp add: get_proc_def)
  let ?v = "fdTab (procTab t ! ?n) ! i"
  have gf: "get_fd (procTab t ! ?n) i = Inr ?v" using i lft by (simp add: get_fd_def)
  have v: "?v = (if ?fds ! i \<in> ?cl i then - 1 else ?fds ! i)"
    using tab i lf by simp
  have cs: "?cl (Suc i) = ?cl i \<union> (if 0 \<le> ?fds ! i \<and> ?fds ! i < int ?M then {?fds ! i} else {})"
    using i lf by (simp add: closed_fds_Suc)
  have sub: "?cl k \<subseteq> ?H" for k
    by (auto simp: closed_fds_def held_fds_def dest: in_set_takeD)
  show ?thesis
  proof (cases "0 \<le> ?v \<and> ?v < int ?M")
    case True
    then have vi: "?v = ?fds ! i" and nc: "?fds ! i \<notin> ?cl i" using v by (auto split: if_splits)
    have cs': "?cl (Suc i) = insert ?v (?cl i)" using cs True vi by simp
    have nv: "nat ?v < ?M" using True by (simp add: nat_less_iff)
    have vH: "?v \<in> ?H" using cs' sub [of "Suc i"] by auto
    have ft: "openFileTab t ! nat ?v = openFileTab s ! nat ?v"
      using files nv nc vi True by simp
    have fr: "refCount (openFileTab t ! nat ?v) \<le> 1
                \<longrightarrow> can_free t (file_ptr (openFileTab t ! nat ?v))"
    proof
      assume "refCount (openFileTab t ! nat ?v) \<le> 1"
      then have vl: "?v \<in> last_refs s ?H" using vH ft by (simp add: last_refs_def)
      let ?p = "ptr_of s ?v"
      from cfo vl have cf: "can_free s ?p" by blast
      have "can_free t ?p"
      proof (cases "?p = 0")
        case True
        then show ?thesis by (simp add: can_free_def)
      next
        case False
        with cf have p: "?p \<le> length (heap s)" "heap s ! (?p - 1) \<noteq> None"
          by (auto simp: can_free_def)
        have "?p \<notin> ptr_of s ` last_refs s (?cl i)"
        proof
          assume "?p \<in> ptr_of s ` last_refs s (?cl i)"
          then obtain w where w: "w \<in> last_refs s (?cl i)" "ptr_of s w = ?p" by auto
          then have "w \<in> ?cl i" by (simp add: last_refs_def)
          with nc vi have "?v \<noteq> w" by auto
          moreover have "w \<in> last_refs s ?H" using w(1) sub [of i] by (auto simp: last_refs_def)
          ultimately show False using dist vl False w(2) by metis
        qed
        moreover have "?p - 1 < length (heap s)" "Suc (?p - 1) = ?p" using False p(1) by simp_all
        ultimately have "heap t ! (?p - 1) = heap s ! (?p - 1)" using hc by metis
        then show ?thesis using p hl by (simp add: can_free_def)
      qed
      then show "can_free t (file_ptr (openFileTab t ! nat ?v))" by (simp add: ft ptr_of_def)
    qed
    from close_result_total [OF fr] obtain t' where cr: "close_result t ?v pd = Inr t'" by blast
    have cf: "close_fd cfg t ?v pd = Inr (t', 0)"
      using close_fd_eq [of pd t cfg ?v] pd lt lft lot True cr by simp
    have "only_fds ?n t t'" by (rule only_fds_close_fd [OF cf pd(1)])
    with of have o': "only_fds ?n s t'" by (rule only_fds_trans)
    have tab': "fdTab (procTab t' ! ?n) = map (\<lambda>w. if w \<in> ?cl (Suc i) then - 1 else w) ?fds"
    proof -
      have "fdTab (procTab t' ! ?n) = wipe_fd ?v (fdTab (procTab t ! ?n))"
        unfolding close_result_Inr(1) [OF cr] using pd lt by (simp add: wipe_proc_def)
      also have "\<dots> = map (\<lambda>w. if w \<in> ?cl (Suc i) then - 1 else w) ?fds"
        unfolding tab cs' wipe_fd_def using True by auto
      finally show ?thesis .
    qed
    have files': "openFileTab t' ! f
          = (openFileTab s ! f)\<lparr>refCount := refCount (openFileTab s ! f)
                 - (if int f \<in> ?cl (Suc i) then 1 else 0)\<rparr>" if f: "f < ?M" for f
    proof (cases "f = nat ?v")
      case True
      then have "int f = ?v" using \<open>0 \<le> ?v \<and> ?v < int ?M\<close> by simp
      then show ?thesis
        using files f lot nc vi True by (simp add: close_result_Inr(2) [OF cr] cs')
    next
      case False
      then have "int f \<noteq> ?v" using \<open>0 \<le> ?v \<and> ?v < int ?M\<close> by auto
      then show ?thesis
        using files f False by (simp add: close_result_Inr(2) [OF cr] cs')
    qed
    have hl': "length (heap t') = length (heap s)"
      using hl by (simp add: close_result_Inr(3) [OF cr] length_released)
    have hc': "heap t' ! a
          = (if Suc a \<in> ptr_of s ` last_refs s (?cl (Suc i)) then None else heap s ! a)"
      if a: "a < length (heap s)" for a
    proof (cases "refCount (openFileTab s ! nat ?v) \<le> 1")
      case True
      then have "last_refs s (?cl (Suc i)) = insert ?v (last_refs s (?cl i))"
        unfolding cs' by (auto simp: last_refs_def)
      moreover have "heap t' ! a = (if Suc a = ptr_of s ?v then None else heap t ! a)"
        using True a hl by (simp add: close_result_Inr(3) [OF cr] ft released_nth ptr_of_def)
      ultimately show ?thesis using hc a by auto
    next
      case False
      then have "last_refs s (?cl (Suc i)) = last_refs s (?cl i)"
        unfolding cs' by (auto simp: last_refs_def)
      moreover have "heap t' = heap t" using False by (simp add: close_result_Inr(3) [OF cr] ft)
      ultimately show ?thesis using hc a by simp
    qed
    have "kill_inv cfg s pd (Suc i) t'"
      unfolding kill_inv_def using o' tab' files' hl' hc' by blast
    then show ?thesis using gp gf cf True by auto
  next
    case False
    have same: "?cl (Suc i) = ?cl i"
    proof (cases "0 \<le> ?fds ! i \<and> ?fds ! i < int ?M")
      case True
      with False v have "?fds ! i \<in> ?cl i" by (auto split: if_splits)
      then show ?thesis using cs by auto
    next
      case False
      then show ?thesis using cs by auto
    qed
    have inv': "kill_inv cfg s pd (Suc i) t"
      using inv unfolding kill_inv_def same by simp
    show ?thesis
    proof (cases "0 \<le> ?v")
      case True
      with False have "\<not> (0 \<le> ?v \<and> ?v < int ?M)" by simp
      then have "close_fd cfg t ?v pd = Inr (t, - 1)"
        using close_fd_eq [of pd t cfg ?v] pd lt lft lot by auto
      then show ?thesis using gp gf True inv' by simp
    next
      case False
      then show ?thesis using gp gf inv' by simp
    qed
  qed
qed

text \<open>
  Claim C10, as the code has it: for a \<open>pid\<close> that indexes the process table, and provided
  every pointer the call passes to \<open>free\<close> is null or a pipe not yet released, kill (svc 0x06)
  returns without calling the scheduler and leaves \<open>executing\<close>, \<open>time\<close> and every other PCB
  as they were. In the target it sets \<open>status\<close> to TERMINATED and resets every descriptor slot
  holding a descriptor within \<open>[0, MAX_FDS)\<close> to -1; the reference count of each such descriptor
  drops by one, and the pipes released are exactly those of the entries whose count reaches
  zero or less; \<open>currentProcesses\<close> drops by one and \<open>gpr[0]\<close> of the caller becomes 0.
\<close>

theorem kill_frame:
  assumes ok: "kill_ok cfg s pd" and pd: "pd = sint (gpr (uctx s) 0)"
  shows "\<exists>s'. hilevel_handler_svc cfg s 0x06 = Inr s' \<and>
           executing s' = executing s \<and> time s' = time s \<and>
           length (procTab s') = length (procTab s) \<and>
           (\<forall>i < length (procTab s). i \<noteq> nat pd \<longrightarrow> procTab s' ! i = procTab s ! i) \<and>
           procTab s' ! nat pd
             = (procTab s ! nat pd)
                 \<lparr>status := STATUS_TERMINATED,
                  fdTab := map (\<lambda>v. if 0 \<le> v \<and> v < int (MAX_FDS cfg) then - 1 else v)
                             (fdTab (procTab s ! nat pd))\<rparr> \<and>
           length (openFileTab s') = length (openFileTab s) \<and>
           (\<forall>f < MAX_FDS cfg.
              openFileTab s' ! f
                = (openFileTab s ! f)
                    \<lparr>refCount := refCount (openFileTab s ! f)
                       - (if int f \<in> set (fdTab (procTab s ! nat pd)) then 1 else 0)\<rparr>) \<and>
           length (heap s') = length (heap s) \<and>
           (\<forall>a < length (heap s).
              heap s' ! a
                = (if Suc a \<in> ptr_of s ` last_refs s (held_fds cfg s pd) then None
                   else heap s ! a)) \<and>
           currentProcesses s' = currentProcesses s - 1 \<and>
           uctx s' = (uctx s)\<lparr>gpr := (gpr (uctx s))(0 := 0)\<rparr> \<and>
           uart s' = uart s @ ''K'' \<and> mem s' = mem s"
proof -
  let ?n = "nat pd"
  let ?M = "MAX_FDS cfg"
  let ?s0 = "PL011_putc CHR ''K'' s"
  let ?fds = "fdTab (procTab s ! ?n)"
  let ?body = "\<lambda>i t. thenR (get_proc t pd)
                (\<lambda>q. thenR (get_fd q i)
                   (\<lambda>fd. if fd \<ge> 0
                         then thenR (close_fd cfg t fd pd) (\<lambda>(t1, r). Inr t1)
                         else Inr t))"
  have same0: "held_fds cfg ?s0 pd = held_fds cfg s pd" "last_refs ?s0 = last_refs s"
    "ptr_of ?s0 = ptr_of s" "can_free ?s0 = can_free s"
    by (auto simp: held_fds_def last_refs_def ptr_of_def can_free_def PL011_putc_def fun_eq_iff)
  have ok0: "kill_ok cfg ?s0 pd"
    using ok unfolding kill_ok_def same0 by (simp add: PL011_putc_def)
  from ok have n: "0 \<le> pd" "?n < length (procTab s)" and lf: "length ?fds = ?M"
    by (auto simp: kill_ok_def)
  have q0: "kill_inv cfg ?s0 pd 0 ?s0"
    by (simp add: kill_inv_def only_fds_refl closed_fds_def last_refs_def)
  from for_loop_upt_total [where Q = "kill_inv cfg ?s0 pd" and body = ?body and n = ?M, OF q0]
    kill_step [OF ok0]
  obtain s1 where s1: "for_loop [0..<?M] ?body ?s0 = Inr s1" "kill_inv cfg ?s0 pd ?M s1"
    by blast
  have cl: "closed_fds ?M ?M ?fds = {v \<in> set ?fds. 0 \<le> v \<and> v < int ?M}"
    using lf by (simp add: closed_fds_def)
  have cl0: "closed_fds ?M ?M (fdTab (procTab ?s0 ! ?n)) = held_fds cfg s pd"
    using cl by (simp add: held_fds_def PL011_putc_def)
  from s1(2) have of: "only_fds ?n ?s0 s1"
    and tab: "fdTab (procTab s1 ! ?n)
               = map (\<lambda>v. if 0 \<le> v \<and> v < int ?M then - 1 else v) ?fds"
    and files: "\<forall>f < ?M. openFileTab s1 ! f
          = (openFileTab s ! f)\<lparr>refCount := refCount (openFileTab s ! f)
                 - (if int f \<in> set ?fds then 1 else 0)\<rparr>"
    by (auto simp: kill_inv_def PL011_putc_def cl cong: map_cong)
  from s1(2) have hp: "length (heap s1) = length (heap s)"
    "\<forall>a < length (heap s).
       heap s1 ! a = (if Suc a \<in> ptr_of s ` last_refs s (held_fds cfg s pd) then None
                      else heap s ! a)"
    unfolding kill_inv_def cl0 same0 by (simp_all add: PL011_putc_def)
  from of n obtain fds' where p1: "procTab s1 ! ?n = (procTab s ! ?n)\<lparr>fdTab := fds'\<rparr>"
    by (auto simp: only_fds_def PL011_putc_def)
  with tab have p1': "procTab s1 ! ?n
      = (procTab s ! ?n)\<lparr>fdTab := map (\<lambda>v. if 0 \<le> v \<and> v < int ?M then - 1 else v) ?fds\<rparr>"
    by simp
  have fr: "currentProcesses s1 = currentProcesses s" "time s1 = time s"
    "executing s1 = executing s" "uctx s1 = uctx s" "uart s1 = uart s @ ''K''" "mem s1 = mem s"
    "length (procTab s1) = length (procTab s)" "length (openFileTab s1) = length (openFileTab s)"
    "\<forall>i < length (procTab s). i \<noteq> ?n \<longrightarrow> procTab s1 ! i = procTab s ! i"
    using of by (auto simp: only_fds_def PL011_putc_def)
  let ?s' = "set_gpr0 0 (s1\<lparr>procTab := (procTab s1)[?n := (procTab s1 ! ?n)\<lparr>status := STATUS_TERMINATED\<rparr>],
                          currentProcesses := currentProcesses s1 - 1\<rparr>)"
  have run: "hilevel_handler_svc cfg s 0x06 = Inr ?s'"
  proof -
    have "sys_kill cfg s =
            thenR (for_loop [0..<?M] ?body ?s0)
              (\<lambda>s1. thenR (set_proc s1 pd (\<lambda>q. q\<lparr>status := STATUS_TERMINATED\<rparr>))
              (\<lambda>s2. Inr (set_gpr0 0 (s2\<lparr>currentProcesses := currentProcesses s2 - 1\<rparr>))))"
      using pd [symmetric] by (simp add: sys_kill_def Let_def PL011_putc_def cong: if_cong)
    then show ?thesis
      using s1(1) n fr(7) by (simp add: hilevel_handler_svc_def set_proc_def)
  qed
  have heap': "heap ?s' = heap s1" by (simp add: set_gpr0_def)
  show ?thesis
    unfolding run using fr p1' files n hp
    by (simp add: set_gpr0_def)
qed

theorem kill_frame_witness:
  "\<exists>s'. hilevel_handler_svc cfg0 kill_self_state 0x06 = Inr s' \<and>
      executing s' = Some 0 \<and> time s' = 1 \<and> status (procTab s' ! 0) = STATUS_TERMINATED \<and>
      fdTab (procTab s' ! 0) = no_fds \<and> procTab s' ! 1 = procTab kill_self_state ! 1 \<and>
      refCount (openFileTab s' ! 3) = 1 \<and> refCount (openFileTab s' ! 4) = 0 \<and>
      heap kill_self_state ! 0 = Some (new_pipe cfg0) \<and> heap s' ! 0 = None \<and>
      currentProcesses s' = 1 \<and> gpr (uctx s') 0 = 0"
proof -
  have hd: "held_fds cfg0 kill_self_state 0 = {3, 4}"
    by (auto simp: held_fds_def kill_self_state_def mk_pcb_def cfg0_def)
  have lr: "last_refs kill_self_state {3, 4} = {4}"
    by (auto simp: last_refs_def kill_self_state_def shared_files_def)
  have pt: "ptr_of kill_self_state 4 = 1"
    by (simp add: ptr_of_def kill_self_state_def shared_files_def)
  have ok: "kill_ok cfg0 kill_self_state 0"
    unfolding kill_ok_def hd lr using pt
    by (simp add: can_free_def kill_self_state_def shared_files_def mk_pcb_def cfg0_def)
  have pd: "0 = sint (gpr (uctx kill_self_state) 0)"
    by (simp add: kill_self_state_def call_ctx_def zero_ctx_def)
  from kill_frame [OF ok pd] obtain s' where
    s': "hilevel_handler_svc cfg0 kill_self_state 0x06 = Inr s'"
    "executing s' = executing kill_self_state" "time s' = time kill_self_state"
    "\<forall>i < length (procTab kill_self_state). i \<noteq> nat 0 \<longrightarrow>
        procTab s' ! i = procTab kill_self_state ! i"
    "procTab s' ! nat 0
       = (procTab kill_self_state ! nat 0)
           \<lparr>status := STATUS_TERMINATED,
            fdTab := map (\<lambda>v. if 0 \<le> v \<and> v < int (MAX_FDS cfg0) then - 1 else v)
                       (fdTab (procTab kill_self_state ! nat 0))\<rparr>"
    "\<forall>f < MAX_FDS cfg0.
        openFileTab s' ! f
          = (openFileTab kill_self_state ! f)
              \<lparr>refCount := refCount (openFileTab kill_self_state ! f)
                 - (if int f \<in> set (fdTab (procTab kill_self_state ! nat 0)) then 1 else 0)\<rparr>"
    "\<forall>a < length (heap kill_self_state).
        heap s' ! a
          = (if Suc a \<in> ptr_of kill_self_state ` last_refs kill_self_state
                            (held_fds cfg0 kill_self_state 0)
             then None else heap kill_self_state ! a)"
    "currentProcesses s' = currentProcesses kill_self_state - 1"
    "uctx s' = (uctx kill_self_state)\<lparr>gpr := (gpr (uctx kill_self_state))(0 := 0)\<rparr>"
    by blast
  have f3: "(3::nat) < MAX_FDS cfg0" and f4: "(4::nat) < MAX_FDS cfg0" by (simp_all add: cfg0_def)
  have "procTab s' ! 1 = procTab kill_self_state ! 1"
    using s'(4) by (simp add: kill_self_state_def)
  moreover have "refCount (openFileTab s' ! 3) = 1" "refCount (openFileTab s' ! 4) = 0"
    using s'(6) f3 f4
    by (simp_all add: kill_self_state_def shared_files_def mk_pcb_def)
  moreover have "heap s' ! 0 = None"
  proof -
    have "length (heap kill_self_state) = 1" by (simp add: kill_self_state_def)
    with s'(7) show ?thesis unfolding hd lr by (simp add: pt)
  qed
  ultimately show ?thesis
    using s'(1,2,3,5,8,9)
    by (simp add: kill_self_state_def mk_pcb_def cfg0_def no_fds_def)
qed

text \<open>
  Claim C10 as stated, for every \<open>pid\<close> argument, fails. With \<open>pid = MAX_PROCS\<close> the handler
  indexes \<open>procTab\<close> outside the table, which the model reports as a fault instead of a
  returned state. And when the target holds both ends of a pipe as the only holder, entries 3
  and 4 with one pointer, each of the two closes brings a count to zero and passes that pointer
  to \<open>free\<close>: the second call is undefined in C and a fault of the model.
\<close>

theorem kill_frame_counterexample:
  "map_sum id ret_val (hilevel_handler_svc cfg0 kill_range_state 0x06) = Inl OutOfBounds \<and>
   map_sum id ret_val (hilevel_handler_svc cfg0 (user_call 0 pipe_state) 0x06)
     = Inl DanglingPointer"
  by code_simp

section \<open>fork\<close>

lemma find_terminated_frame:
  "procTab t = procTab s \<Longrightarrow> find_terminated t xs d = find_terminated s xs d"
  by (induction xs) (simp_all add: get_proc_def)

lemma sys_fork_unfold:
  assumes "currentProcesses s < int (MAX_PROCS cfg)"
    and "find_terminated s [1..<MAX_PROCS cfg] (currentProcesses s) = Inr iNew"
    and "0 \<le> iNew" and "nat iNew < length (procTab s)"
    and "executing s = Some e" and "e < length (procTab s)"
  shows "sys_fork cfg s
           = thenR (for_loop [0..<MAX_FDS cfg] (fork_body iNew) (fork_pre cfg s iNew e))
               (fork_post iNew)"
proof -
  let ?s1 = "(PL011_putc CHR ''F'' s)\<lparr>currentProcesses := currentProcesses (PL011_putc CHR ''F'' s) + 1\<rparr>"
  have ft: "find_terminated ?s1 [1..<MAX_PROCS cfg] (currentProcesses (PL011_putc CHR ''F'' s)) = Inr iNew"
    using assms(2) find_terminated_frame [of ?s1 s] by (simp add: PL011_putc_def)
  have lt: "iNew < int (length (procTab s))" using assms(3,4) by linarith
  show ?thesis
    unfolding sys_fork_def Let_def ft
    using assms(1,3,4,5,6) lt
    by (cases "e = nat iNew")
      (simp_all add: PL011_putc_def set_proc_def get_proc_def get_executing_def memset_pcb_def
        fork_pre_def fork_sp_def fork_height_def fork_tos_def Let_def)
qed


lemma find_terminated_upd:
  "find_terminated (s\<lparr>uart := u, currentProcesses := c\<rparr>) xs d = find_terminated s xs d"
  by (rule find_terminated_frame) simp

lemma sys_fork_Inr:
  assumes run: "sys_fork cfg s = Inr s'" and room: "currentProcesses s < int (MAX_PROCS cfg)"
  shows "\<exists>iNew e s9. find_terminated s [1..<MAX_PROCS cfg] (currentProcesses s) = Inr iNew \<and>
           0 \<le> iNew \<and> nat iNew < length (procTab s) \<and>
           executing s = Some e \<and> e < length (procTab s) \<and>
           for_loop [0..<MAX_FDS cfg] (fork_body iNew) (fork_pre cfg s iNew e) = Inr s9 \<and>
           fork_post iNew s9 = Inr s'"
proof -
  let ?ft = "find_terminated s [Suc 0..<MAX_PROCS cfg] (currentProcesses s)"
  obtain iNew where ft: "?ft = Inr iNew"
  proof (cases ?ft)
    case (Inl a)
    then have "sys_fork cfg s = Inl a"
      using room by (simp add: sys_fork_def Let_def PL011_putc_def find_terminated_upd)
    with run show ?thesis by simp
  next
    case (Inr iNew)
    then show ?thesis by (rule that)
  qed
  have rng: "0 \<le> iNew \<and> iNew < int (length (procTab s))"
  proof (rule ccontr)
    assume "\<not> (0 \<le> iNew \<and> iNew < int (length (procTab s)))"
    then have "sys_fork cfg s = Inl OutOfBounds"
      using room ft
      by (auto simp: sys_fork_def Let_def PL011_putc_def find_terminated_upd set_proc_def)
    with run show False by simp
  qed
  then have n: "0 \<le> iNew" "nat iNew < length (procTab s)" by auto
  obtain e where e: "executing s = Some e"
  proof (cases "executing s")
    case None
    then have "sys_fork cfg s = Inl NullPointer"
      using room rng ft
      by (simp add: sys_fork_def Let_def PL011_putc_def find_terminated_upd set_proc_def
          get_executing_def)
    with run show ?thesis by simp
  next
    case (Some e)
    then show ?thesis by (rule that)
  qed
  have el: "e < length (procTab s)"
  proof (rule ccontr)
    assume "\<not> e < length (procTab s)"
    then have "sys_fork cfg s = Inl OutOfBounds"
      using room rng e ft
      by (simp add: sys_fork_def Let_def PL011_putc_def find_terminated_upd set_proc_def
          get_executing_def get_proc_def)
    with run show False by simp
  qed
  have ft1: "find_terminated s [1..<MAX_PROCS cfg] (currentProcesses s) = Inr iNew"
    using ft by simp
  from run sys_fork_unfold [OF room ft1 n e el]
  obtain s9 where "for_loop [0..<MAX_FDS cfg] (fork_body iNew) (fork_pre cfg s iNew e) = Inr s9"
    "fork_post iNew s9 = Inr s'"
    by (auto simp: thenR_eq_Inr)
  with ft1 n e el show ?thesis by blast
qed

lemma only_fds_fork_body:
  assumes "fork_body iNew i t = Inr t'" and "0 \<le> iNew"
  shows "only_fds (nat iNew) t t'"
proof -
  from assms(1) obtain fd t1 where t1: "set_proc_fd t iNew i fd = Inr t1"
    and t': "t' = t1 \<or> set_file t1 fd (\<lambda>f. f\<lparr>refCount := refCount f + 1\<rparr>) = Inr t'"
    by (auto simp: fork_body_def thenR_eq_Inr split: if_splits prod.splits)
  have "only_fds (nat iNew) t t1" by (rule only_fds_set_proc_fd [OF t1 assms(2)])
  moreover have "only_fds (nat iNew) t1 t'"
    using t' only_fds_set_file only_fds_refl by blast
  ultimately show ?thesis by (rule only_fds_trans)
qed

lemma only_fds_fork_loop:
  assumes "for_loop ixs (fork_body iNew) s = Inr s'" and "0 \<le> iNew"
  shows "only_fds (nat iNew) s s'"
  by (rule for_loop_inv [OF assms(1), where P = "only_fds (nat iNew) s"])
    (auto intro: only_fds_refl only_fds_trans only_fds_fork_body [OF _ assms(2)])

text \<open>
  Claim C3, as the code has it: a fork (svc 0x03) that finds room and returns leaves the parent's
  saved context unchanged except \<open>gpr[0]\<close>, which holds the child's pid; the child's saved
  context is the parent's context at the trap except \<open>gpr[0]\<close>, which is 0, and \<open>sp\<close>.
\<close>

theorem fork_registers:
  assumes "hilevel_handler_svc cfg s 0x03 = Inr s'"
    and "currentProcesses s < int (MAX_PROCS cfg)"
  shows "\<exists>iNew. 0 \<le> iNew \<and> nat iNew < length (procTab s') \<and>
           uctx s' = (uctx s)\<lparr>gpr := (gpr (uctx s))(0 := word_of_int iNew)\<rparr> \<and>
           pid (procTab s' ! nat iNew) = iNew \<and>
           status (procTab s' ! nat iNew) = STATUS_READY \<and>
           cpsr (ctx (procTab s' ! nat iNew)) = cpsr (uctx s) \<and>
           pc (ctx (procTab s' ! nat iNew)) = pc (uctx s) \<and>
           gpr (ctx (procTab s' ! nat iNew)) = (gpr (uctx s))(0 := 0)"
proof -
  have run: "sys_fork cfg s = Inr s'" using assms(1) by (simp add: hilevel_handler_svc_def)
  from sys_fork_Inr [OF run assms(2)]
  obtain iNew e s9 where n: "0 \<le> iNew" "nat iNew < length (procTab s)"
    and e: "executing s = Some e"
    and loop: "for_loop [0..<MAX_FDS cfg] (fork_body iNew) (fork_pre cfg s iNew e) = Inr s9"
    and post: "fork_post iNew s9 = Inr s'"
    by blast
  let ?pre = "fork_pre cfg s iNew e"
  have of: "only_fds (nat iNew) ?pre s9" by (rule only_fds_fork_loop [OF loop n(1)])
  have lp: "length (procTab ?pre) = length (procTab s)" by (simp add: fork_pre_def Let_def)
  from of n lp obtain fds where c9: "procTab s9 ! nat iNew = (procTab ?pre ! nat iNew)\<lparr>fdTab := fds\<rparr>"
    and l9: "length (procTab s9) = length (procTab s)" and u9: "uctx s9 = uctx s"
    by (auto simp: only_fds_def fork_pre_def Let_def)
  have pre: "procTab ?pre ! nat iNew =
      \<lparr>pid = iNew, status = STATUS_READY, tos = fork_tos cfg iNew,
       ctx = (uctx s)\<lparr>sp := fork_sp cfg s iNew e\<rparr>, lastExec = time s,
       niceness = (if e = nat iNew then 0 else niceness (procTab s ! e)),
       fdTab = map (\<lambda>_. 0) (fdTab (procTab s ! nat iNew))\<rparr>"
    using n by (simp add: fork_pre_def Let_def)
  have lt: "iNew < int (length (procTab s9))" using n l9 by linarith
  have s': "s' = (set_gpr0 (word_of_int iNew) s9)
                   \<lparr>procTab := (procTab s9)[nat iNew := (procTab s9 ! nat iNew)
                       \<lparr>ctx := (ctx (procTab s9 ! nat iNew))
                                 \<lparr>gpr := (gpr (ctx (procTab s9 ! nat iNew)))(0 := 0)\<rparr>\<rparr>]\<rparr>"
    using post n lt c9 pre
    by (simp add: fork_post_def get_proc_def set_proc_def set_gpr0_def)
  show ?thesis
    using e n l9 u9 c9 pre unfolding s'
    by (intro exI [of _ iNew]) (simp add: set_gpr0_def)
qed

lemma fork_state_run:
  "\<exists>s'. hilevel_handler_svc cfg0 fork_state 0x03 = Inr s' \<and> length (procTab s') = 4 \<and>
         gpr (uctx s') 0 = 1 \<and> child_sp 1 s' = 0x70200000"
  by (simp add: hilevel_handler_svc_def sys_fork_def fork_body_def fork_post_def fork_state_def
      cfg0_def std_files_def no_fds_def zero_pcb_def zero_ctx_def memset_pcb_def child_sp_def
      PL011_putc_def set_proc_def get_proc_def get_executing_def get_fd_def set_proc_fd_def
      set_fd_def set_file_def set_gpr0_def Let_def upt_rec)

theorem fork_registers_witness:
  "\<exists>s'. hilevel_handler_svc cfg0 fork_state 0x03 = Inr s' \<and>
         uctx s' = (uctx fork_state)\<lparr>gpr := (gpr (uctx fork_state))(0 := 1)\<rparr> \<and>
         pid (procTab s' ! 1) = 1 \<and> status (procTab s' ! 1) = STATUS_READY \<and>
         cpsr (ctx (procTab s' ! 1)) = 0x50 \<and> pc (ctx (procTab s' ! 1)) = 0x70010040 \<and>
         gpr (ctx (procTab s' ! 1)) = (\<lambda>_. 7)(0 := 0)"
proof -
  from fork_state_run obtain s' where
    s': "hilevel_handler_svc cfg0 fork_state 0x03 = Inr s'" "length (procTab s') = 4"
    "gpr (uctx s') 0 = 1" by blast
  have room: "currentProcesses fork_state < int (MAX_PROCS cfg0)"
    by (simp add: fork_state_def cfg0_def)
  from fork_registers [OF s'(1) room]
  obtain iNew where f: "0 \<le> iNew" "nat iNew < length (procTab s')"
    "uctx s' = (uctx fork_state)\<lparr>gpr := (gpr (uctx fork_state))(0 := word_of_int iNew)\<rparr>"
    "pid (procTab s' ! nat iNew) = iNew" "status (procTab s' ! nat iNew) = STATUS_READY"
    "cpsr (ctx (procTab s' ! nat iNew)) = cpsr (uctx fork_state)"
    "pc (ctx (procTab s' ! nat iNew)) = pc (uctx fork_state)"
    "gpr (ctx (procTab s' ! nat iNew)) = (gpr (uctx fork_state))(0 := 0)"
    by blast
  have w: "(word_of_int iNew :: u32) = 1" using f(3) s'(3) by simp
  have "iNew = 0 \<or> iNew = 1 \<or> iNew = 2 \<or> iNew = 3" using f(1,2) s'(2) by auto
  with w have i1: "iNew = 1" by auto
  have u: "cpsr (uctx fork_state) = 0x50" "pc (uctx fork_state) = 0x70010040"
    "gpr (uctx fork_state) = (\<lambda>_. 7)"
    by (simp_all add: fork_state_def)
  from f(3-8) s'(1) i1 show ?thesis unfolding u by simp
qed

text \<open>
  Claim C3 as stated fails for the stack pointer: the child forked by the console has the
  saved \<open>sp = 0x70200000\<close>, in its own stack, while the parent's \<open>sp\<close> at the trap is
  \<open>0x700FFF00\<close>.
\<close>

theorem fork_registers_counterexample:
  "map_sum id (child_sp 1) (hilevel_handler_svc cfg0 fork_state 0x03) = Inr 0x70200000 \<and>
   sp (uctx fork_state) = 0x700FFF00"
  using fork_state_run by (auto simp: fork_state_def)

section \<open>The process counter\<close>

lemma same_status_refl: "same_status s s"
  by (simp add: same_status_def)

lemma same_status_trans: "same_status s t \<Longrightarrow> same_status t u \<Longrightarrow> same_status s u"
  by (simp add: same_status_def)

lemma same_status_inv: "same_status s t \<Longrightarrow> count_inv s \<Longrightarrow> count_inv t"
  by (simp add: same_status_def count_inv_def live_count_def)

lemma only_fds_same_status:
  assumes "only_fds n s t"
  shows "same_status s t"
proof -
  have "status (procTab t ! i) = status (procTab s ! i)" if "i < length (procTab s)" for i
    using assms that by (cases "i = n") (auto simp: only_fds_def)
  then have "map status (procTab t) = map status (procTab s)"
    using assms by (intro nth_equalityI) (auto simp: only_fds_def)
  then show ?thesis using assms by (simp add: same_status_def only_fds_def)
qed

lemma filter_length_update:
  assumes "i < length xs"
  shows "length (filter P (xs[i := y])) + (if P (xs ! i) then 1 else 0)
           = length (filter P xs) + (if P y then 1 else 0)"
  using assms
proof (induction xs arbitrary: i)
  case Nil
  then show ?case by simp
next
  case (Cons x xs)
  then show ?case by (cases i) auto
qed

text \<open>The effect on the count of changing the status of one slot.\<close>

lemma live_count_update:
  assumes "i < length (procTab s)"
  shows "int (live_count (s\<lparr>procTab := (procTab s)[i := q]\<rparr>))
           = int (live_count s) - (if is_live (status (procTab s ! i)) then 1 else 0)
             + (if is_live (status q) then 1 else 0)"
proof -
  have "map status ((procTab s)[i := q]) = (map status (procTab s))[i := status q]"
    by (simp add: map_update)
  moreover have "i < length (map status (procTab s))" using assms by simp
  ultimately show ?thesis
    using filter_length_update [of i "map status (procTab s)" is_live "status q"] assms
    by (simp add: live_count_def split: if_splits)
qed

lemma foldl_putc_map:
  "foldl (\<lambda>t i. PL011_putc (f i) t) s xs = s\<lparr>uart := uart s @ map f xs\<rparr>"
  by (induction xs arbitrary: s) (simp_all add: PL011_putc_def)

lemma same_status_write:
  assumes "sys_write cfg s = Inr s'"
  shows "same_status s s'"
  using assms
  by (auto simp: sys_write_def Let_def same_status_def set_gpr0_def put_pipe_def print_eq
      foldl_putc_map thenR_eq_Inr split: if_splits)

lemma same_status_read:
  assumes "sys_read cfg s = Inr s'"
  shows "same_status s s'"
  using assms
  by (auto simp: sys_read_def Let_def same_status_def set_gpr0_def put_pipe_def print_eq
      thenR_eq_Inr split: if_splits)

lemma same_status_exec:
  assumes "sys_exec cfg s = Inr s'"
  shows "same_status s s'"
  using assms
  by (auto simp: sys_exec_def Let_def same_status_def PL011_putc_def thenR_eq_Inr)

lemma same_status_set_proc:
  assumes "set_proc s i f = Inr t" and "\<And>q. status (f q) = status q"
  shows "same_status s t"
proof -
  from assms(1) have i: "nat i < length (procTab s)"
    and t: "t = s\<lparr>procTab := (procTab s)[nat i := f (procTab s ! nat i)]\<rparr>"
    by (auto simp: set_proc_def split: if_splits)
  have "map status ((procTab s)[nat i := f (procTab s ! nat i)])
          = (map status (procTab s))[nat i := map status (procTab s) ! nat i]"
    using i assms(2) by (simp add: map_update)
  also have "\<dots> = map status (procTab s)" by (rule list_update_id)
  finally show ?thesis unfolding t by (simp add: same_status_def)
qed

lemma same_status_nice:
  assumes "sys_nice cfg s = Inr s'"
  shows "same_status s s'"
proof -
  let ?s0 = "PL011_putc CHR ''N'' s"
  from assms obtain s1 x f where s1: "set_proc ?s0 (sint (gpr (uctx ?s0) 0)) (\<lambda>q. q\<lparr>niceness := x\<rparr>) = Inr s1"
    and s': "s' = set_gpr0 (word_of_int x) s1"
    by (auto simp: sys_nice_def Let_def thenR_eq_Inr)
  have "same_status s ?s0" by (simp add: same_status_def PL011_putc_def)
  moreover have "same_status ?s0 s1" by (rule same_status_set_proc [OF s1]) simp
  moreover have "same_status s1 s'" unfolding s' by (simp add: same_status_def set_gpr0_def)
  ultimately show ?thesis by (blast intro: same_status_trans)
qed

lemma same_status_close_fd:
  assumes "close_fd cfg s fd pd = Inr (t, r)"
  shows "same_status s t"
proof (cases "0 \<le> pd")
  case True
  from only_fds_close_fd [OF assms True] show ?thesis by (rule only_fds_same_status)
next
  case False
  have "close_fd cfg s fd pd = Inr (s, - 1) \<or> (\<exists>e. close_fd cfg s fd pd = Inl e)"
  proof (cases "0 \<le> fd \<and> fd < int (MAX_FDS cfg)")
    case True
    then have "[0..<MAX_FDS cfg] = 0 # [1..<MAX_FDS cfg]" by (simp add: upt_rec)
    then show ?thesis using True False by (simp add: close_fd_def get_proc_def)
  next
    case False
    then show ?thesis by (auto simp: close_fd_def)
  qed
  with assms show ?thesis by (auto simp: same_status_refl)
qed

lemma same_status_close:
  assumes "sys_close cfg s = Inr s'"
  shows "same_status s s'"
proof -
  from assms obtain pd t r where c: "close_fd cfg s (sint (gpr (uctx s) 0)) pd = Inr (t, r)"
    and s': "s' = set_gpr0 (word_of_int r) t"
    by (auto simp: sys_close_def Let_def thenR_eq_Inr)
  have "same_status t s'" unfolding s' by (simp add: same_status_def set_gpr0_def)
  with same_status_close_fd [OF c] show ?thesis by (rule same_status_trans)
qed

lemma same_status_open_fd_slot:
  assumes "open_fd_slot s js fd = Inr s'"
  shows "same_status s s'"
  using assms
proof (induction js)
  case Nil
  then show ?case by (simp add: same_status_refl)
next
  case (Cons j js)
  from Cons.prems obtain e where
    "set_proc_fd s (int e) j fd = Inr s' \<or> open_fd_slot s js fd = Inr s'"
    by (auto simp: thenR_eq_Inr split: if_splits)
  then show ?case
    using Cons.IH only_fds_set_proc_fd [of s "int e" j fd s'] only_fds_same_status by auto
qed

lemma same_status_open_fd_loop:
  assumes "open_fd_loop cfg s xs p fl = Inr (s', fd)"
  shows "same_status s s'"
  using assms
proof (induction xs)
  case Nil
  then show ?case by (simp add: same_status_refl)
next
  case (Cons i xs)
  from Cons.prems have
    "open_fd_loop cfg s xs p fl = Inr (s', fd) \<or>
     (\<exists>s1. set_file s (int i) (\<lambda>f. f\<lparr>file_ptr := p, flag := fl, refCount := refCount f + 1\<rparr>) = Inr s1 \<and>
           open_fd_slot s1 [0..<MAX_FDS cfg] (int i) = Inr s')"
    by (auto simp: thenR_eq_Inr split: if_splits)
  then show ?case
  proof
    assume "open_fd_loop cfg s xs p fl = Inr (s', fd)"
    then show ?thesis by (rule Cons.IH)
  next
    assume "\<exists>s1. set_file s (int i) (\<lambda>f. f\<lparr>file_ptr := p, flag := fl, refCount := refCount f + 1\<rparr>) = Inr s1 \<and>
           open_fd_slot s1 [0..<MAX_FDS cfg] (int i) = Inr s'"
    then obtain s1 where s1: "set_file s (int i) (\<lambda>f. f\<lparr>file_ptr := p, flag := fl, refCount := refCount f + 1\<rparr>) = Inr s1"
      "open_fd_slot s1 [0..<MAX_FDS cfg] (int i) = Inr s'" by blast
    have "same_status s s1" using only_fds_set_file [OF s1(1), of 0] by (rule only_fds_same_status)
    with same_status_open_fd_slot [OF s1(2)] show ?thesis by (blast intro: same_status_trans)
  qed
qed

lemma same_status_pipe:
  assumes "sys_pipe cfg s = Inr s'"
  shows "same_status s s'"
proof -
  let ?a = "length (heap s) + 1"
  let ?s0 = "s\<lparr>heap := heap s @ [Some (new_pipe cfg)]\<rparr>"
  from assms obtain s1 fr where o1: "open_fd cfg ?s0 ?a RDONLY = Inr (s1, fr)"
    by (cases "open_fd cfg ?s0 ?a RDONLY") (auto simp: sys_pipe_def malloc_def Let_def)
  from assms o1 obtain s2 fw where o2: "open_fd cfg s1 ?a WRONLY = Inr (s2, fw)"
    by (cases "open_fd cfg s1 ?a WRONLY") (auto simp: sys_pipe_def malloc_def Let_def)
  have a: "same_status s ?s0" by (simp add: same_status_def)
  have b: "same_status ?s0 s1" using o1 by (simp add: open_fd_def same_status_open_fd_loop)
  have c: "same_status s1 s2" using o2 by (simp add: open_fd_def same_status_open_fd_loop)
  have d: "same_status s2 s'"
  proof (cases "fr = - 1 \<or> fw = - 1")
    case False
    then have "s' = set_gpr0 0 (s2\<lparr>mem := store_bytes (mem s2) (gpr (uctx s) 0)
                                          (int_bytes fr @ int_bytes fw)\<rparr>)"
      using assms o1 o2 by (simp add: sys_pipe_def malloc_def Let_def)
    then show ?thesis by (simp add: same_status_def set_gpr0_def)
  next
    case True
    let ?s3 = "print (CHR 0x0A # ''pipe failed'') 12 s2"
    from True assms o1 o2 obtain pd s4 r4 s5 r5 where
      c4: "(if fr \<ge> 0 then close_fd cfg ?s3 fr pd else Inr (?s3, 0)) = Inr (s4, r4)"
      and c5: "(if fw \<ge> 0 then close_fd cfg s4 fw pd else Inr (s4, 0)) = Inr (s5, r5)"
      and s': "s' = set_gpr0 (- 1) s5"
      by (auto simp: sys_pipe_def malloc_def Let_def thenR_eq_Inr split: prod.splits)
    have "same_status s2 ?s3" by (simp add: same_status_def print_eq)
    moreover have "same_status ?s3 s4"
      using c4 same_status_close_fd by (auto simp: same_status_refl split: if_splits)
    moreover have "same_status s4 s5"
      using c5 same_status_close_fd by (auto simp: same_status_refl split: if_splits)
    moreover have "same_status s5 s'" unfolding s' by (simp add: same_status_def set_gpr0_def)
    ultimately show ?thesis by (blast intro: same_status_trans)
  qed
  from a b c d show ?thesis by (blast intro: same_status_trans)
qed

lemma for_loop_upt_inv:
  assumes "for_loop [0..<n] body s = Inr s'" and "Q 0 s"
    and "\<And>i t t'. i < n \<Longrightarrow> Q i t \<Longrightarrow> body i t = Inr t' \<Longrightarrow> Q (Suc i) t'"
  shows "Q n s'"
  using assms(1,3)
proof (induction n arbitrary: s')
  case 0
  then show ?case using assms(2) by simp
next
  case (Suc n)
  from Suc.prems(1) obtain s1 where s1: "for_loop [0..<n] body s = Inr s1" "body n s1 = Inr s'"
    unfolding for_loop_upt_Suc thenR_eq_Inr by blast
  have "Q n s1" by (rule Suc.IH [OF s1(1)]) (simp add: Suc.prems(2))
  then show ?case using Suc.prems(2) [of n s1 s'] s1(2) by simp
qed

lemma live_count_none:
  assumes "\<forall>k < length (procTab t). status (procTab t ! k) = STATUS_INVALID"
  shows "live_count t = 0"
proof -
  have "\<not> is_live x" if "x \<in> set (map status (procTab t))" for x
    using that assms by (auto simp: in_set_conv_nth is_live_def)
  then show ?thesis by (simp add: live_count_def filter_empty_conv)
qed

lemma dispatch_None:
  assumes "dispatch s None (Some n) = Inr s'"
  shows "procTab s' = procTab s \<and> currentProcesses s' = currentProcesses s"
  using assms
  by (auto simp: dispatch_def Let_def get_proc_def PL011_putc_def printPID_eq thenR_eq_Inr
      split: if_splits)

lemma same_status_set_file:
  assumes "set_file s fd f = Inr t"
  shows "same_status s t"
  using assms by (auto simp: set_file_def same_status_def split: if_splits)

lemma count_reset:
  assumes run: "hilevel_handler_rst cfg s = Inr s'" and cp0: "currentProcesses s = 0"
    and len: "length (procTab s) = MAX_PROCS cfg"
  shows "count_inv s'"
proof -
  let ?b1 = "\<lambda>i t. set_proc t (int i) (\<lambda>q. q\<lparr>status := STATUS_INVALID\<rparr>)"
  let ?b2 = "\<lambda>i t. if i < 3
                      then thenR (set_file t (int i) (\<lambda>f. f\<lparr>refCount := 1\<rparr>))
                             (\<lambda>t1. set_file t1 (int i)
                                      (\<lambda>f. f\<lparr>flag := (if i = 0 then RDONLY else WRONLY)\<rparr>))
                      else set_file t (int i) (\<lambda>f. f\<lparr>refCount := 0\<rparr>)"
  let ?b3 = "\<lambda>i t. thenR (get_proc t 0)
                        (\<lambda>q. if i < length (fdTab q) then set_proc t 0 (set_fd i (- 1))
                              else Inl OutOfBounds)"
  let ?f3 = "\<lambda>q. (memset_pcb q)\<lparr>pid := 0, status := STATUS_READY, tos := tos_console cfg\<rparr>"
  from run obtain s1 s2 s3 s4 s5 where
    l1: "for_loop [0..<MAX_PROCS cfg] ?b1 (PL011_putc CHR ''R'' s) = Inr s1"
    and l2: "for_loop [0..<MAX_FDS cfg] ?b2 s1 = Inr s2"
    and p3: "set_proc s2 0 ?f3 = Inr s3"
    and p4: "set_proc s3 0
              (\<lambda>q. q\<lparr>ctx := (ctx q)\<lparr>cpsr := 0x50, pc := main_console cfg, sp := tos q\<rparr>,
                      lastExec := time s3, niceness := 0\<rparr>) = Inr s4"
    and l3: "for_loop [0..<MAX_FDS cfg] ?b3 s4 = Inr s5"
    and d: "dispatch (s5\<lparr>currentProcesses := currentProcesses s5 + 1\<rparr>) None (Some 0) = Inr s'"
    unfolding hilevel_handler_rst_def thenR_eq_Inr by blast
  let ?Q = "\<lambda>i t. currentProcesses t = 0 \<and> length (procTab t) = MAX_PROCS cfg \<and>
                  (\<forall>k < i. status (procTab t ! k) = STATUS_INVALID)"
  have q1: "?Q (MAX_PROCS cfg) s1"
  proof (rule for_loop_upt_inv [OF l1, where Q = ?Q])
    show "?Q 0 (PL011_putc CHR ''R'' s)" using cp0 len by (simp add: PL011_putc_def)
  next
    fix i t t'
    assume "i < MAX_PROCS cfg" "?Q i t" "?b1 i t = Inr t'"
    then show "?Q (Suc i) t'"
      by (auto simp: set_proc_def nth_list_update less_Suc_eq split: if_splits)
  qed
  then have c1: "live_count s1 = 0" "currentProcesses s1 = 0"
    by (simp_all add: live_count_none)
  have "same_status s1 s2"
  proof (rule for_loop_inv [OF l2, where P = "same_status s1"])
    show "same_status s1 s1" by (rule same_status_refl)
  next
    fix i t t'
    assume t: "same_status s1 t" and b: "?b2 i t = Inr t'"
    from b have "same_status t t'"
      by (auto simp: thenR_eq_Inr split: if_splits
          intro: same_status_set_file same_status_trans)
    with t show "same_status s1 t'" by (rule same_status_trans)
  qed
  then have c2: "live_count s2 = 0" "currentProcesses s2 = 0"
    using c1 by (simp_all add: same_status_def live_count_def)
  from p3 have z: "0 < length (procTab s2)"
    and s3: "s3 = s2\<lparr>procTab := (procTab s2)[0 := ?f3 (procTab s2 ! 0)]\<rparr>"
    by (auto simp: set_proc_def split: if_splits)
  have dead: "\<not> is_live (status (procTab s2 ! 0))"
  proof
    assume a: "is_live (status (procTab s2 ! 0))"
    have "procTab s2 ! 0 \<in> set (procTab s2)" using z by simp
    with a have "filter is_live (map status (procTab s2)) \<noteq> []"
      by (auto simp: filter_empty_conv)
    with c2(1) show False unfolding live_count_def by (simp only: length_0_conv)
  qed
  have c3: "int (live_count s3) = 1" "currentProcesses s3 = 0"
    unfolding s3 using live_count_update [OF z, of "?f3 (procTab s2 ! 0)"] dead c2
    by (simp_all add: is_live_def)
  have "same_status s3 s4" by (rule same_status_set_proc [OF p4]) simp
  moreover have "same_status s4 s5"
  proof (rule for_loop_inv [OF l3, where P = "same_status s4"])
    show "same_status s4 s4" by (rule same_status_refl)
  next
    fix i t t'
    assume t: "same_status s4 t" and b: "?b3 i t = Inr t'"
    from b have "set_proc t 0 (set_fd i (- 1)) = Inr t'"
      by (auto simp: thenR_eq_Inr split: if_splits)
    then have "same_status t t'" by (rule same_status_set_proc) (simp add: set_fd_def)
    with t show "same_status s4 t'" by (rule same_status_trans)
  qed
  ultimately have "same_status s3 s5" by (rule same_status_trans)
  then have c5: "int (live_count s5) = 1" "currentProcesses s5 = 0"
    using c3 by (simp_all add: same_status_def live_count_def)
  from dispatch_None [OF d] c5 show ?thesis
    by (simp add: count_inv_def live_count_def)
qed

lemma same_status_nth:
  assumes "same_status s t" and "k < length (procTab s)"
  shows "status (procTab t ! k) = status (procTab s ! k)"
    and "length (procTab t) = length (procTab s)"
proof -
  from assms(1) have m: "map status (procTab t) = map status (procTab s)"
    by (simp add: same_status_def)
  then show l: "length (procTab t) = length (procTab s)" by (rule map_eq_imp_length_eq)
  from m have "map status (procTab t) ! k = map status (procTab s) ! k" by simp
  then show "status (procTab t ! k) = status (procTab s ! k)" using assms(2) l by simp
qed

lemma same_status_count:
  assumes "same_status s t"
  shows "live_count t = live_count s" and "currentProcesses t = currentProcesses s"
  using assms by (simp_all add: same_status_def live_count_def)

lemma same_status_live_at:
  assumes "same_status s t" and "nat k < length (procTab s)"
  shows "live_at t k = live_at s k"
  using same_status_nth(1) [OF assms] by (simp add: live_at_def)

text \<open>The counter, the count and the liveness of each slot after one slot has been rewritten.\<close>

lemma set_proc_count:
  assumes "set_proc s i f = Inr t"
  shows "currentProcesses t = currentProcesses s"
    and "int (live_count t)
           = int (live_count s) - (if live_at s i then 1 else 0)
             + (if is_live (status (f (procTab s ! nat i))) then 1 else 0)"
    and "length (procTab t) = length (procTab s)"
    and "nat i < length (procTab s)"
    and "live_at t k = (if nat k = nat i then is_live (status (f (procTab s ! nat i)))
                        else live_at s k)"
proof -
  from assms have i: "nat i < length (procTab s)"
    and t: "t = s\<lparr>procTab := (procTab s)[nat i := f (procTab s ! nat i)]\<rparr>"
    by (auto simp: set_proc_def split: if_splits)
  show "nat i < length (procTab s)" by (rule i)
  show "currentProcesses t = currentProcesses s" "length (procTab t) = length (procTab s)"
    unfolding t by simp_all
  show "int (live_count t)
           = int (live_count s) - (if live_at s i then 1 else 0)
             + (if is_live (status (f (procTab s ! nat i))) then 1 else 0)"
    unfolding t live_at_def by (rule live_count_update [OF i])
  show "live_at t k = (if nat k = nat i then is_live (status (f (procTab s ! nat i)))
                        else live_at s k)"
    unfolding t live_at_def using i by (simp add: nth_list_update)
qed

lemma same_status_dispatch:
  assumes "dispatch s (Some e) (Some n) = Inr t"
  shows "same_status s t"
proof -
  let ?s0 = "PL011_putc CHR ''['' s"
  from assms obtain s1 where s1: "set_proc ?s0 (int e) (\<lambda>q. q\<lparr>ctx := uctx ?s0\<rparr>) = Inr s1"
    and r: "currentProcesses t = currentProcesses s1" "procTab t = procTab s1"
    by (auto simp: dispatch_def Let_def thenR_eq_Inr PL011_putc_def printPID_eq)
  have "same_status s ?s0" by (simp add: same_status_def PL011_putc_def)
  moreover have "same_status ?s0 s1" by (rule same_status_set_proc [OF s1]) simp
  moreover have "same_status s1 t" using r by (simp add: same_status_def)
  ultimately show ?thesis by (blast intro: same_status_trans)
qed

text \<open>
  \<open>schedule\<close> leaves the counter as it is and marks the slot selected EXECUTING: the count
  grows by one exactly when that slot was neither READY nor EXECUTING.
\<close>

lemma schedule_count:
  assumes run: "schedule cfg s = Inr s'"
  shows "\<exists>nx. sched_next cfg s = Inr nx \<and> currentProcesses s' = currentProcesses s \<and>
           int (live_count s') = int (live_count s) + (if live_at s nx then 0 else 1)"
proof -
  from run obtain e pe where ge: "get_executing s = Inr (e, pe)"
    by (cases "get_executing s") (auto simp: schedule_def)
  let ?loop = "schedule_loop s [0..<MAX_PROCS cfg] (niceness pe - 1, pid pe)"
  from run ge obtain hp nx where lp: "?loop = Inr (hp, nx)"
    by (cases ?loop) (auto simp: schedule_def Let_def)
  let ?cond = "\<lambda>q. if status q = STATUS_EXECUTING then q\<lparr>status := STATUS_READY\<rparr> else q"
  from run ge lp have
    rest: "thenR (dispatch s (Some e) (Some (nat nx)))
             (\<lambda>s1. thenR (set_proc s1 (pid pe) (\<lambda>q. q\<lparr>lastExec := time s1\<rparr>))
             (\<lambda>s2. thenR (set_proc s2 (pid pe) ?cond)
             (\<lambda>s3. thenR (set_proc s3 nx (\<lambda>q. q\<lparr>status := STATUS_EXECUTING\<rparr>))
             (\<lambda>s4. Inr (s4\<lparr>time := time s4 + 1\<rparr>))))) = Inr s'"
    by (simp add: schedule_def Let_def split: if_splits)
  then obtain s1 s2 s3 s4 where d: "dispatch s (Some e) (Some (nat nx)) = Inr s1"
    and p2: "set_proc s1 (pid pe) (\<lambda>q. q\<lparr>lastExec := time s1\<rparr>) = Inr s2"
    and p3: "set_proc s2 (pid pe) ?cond = Inr s3"
    and p4: "set_proc s3 nx (\<lambda>q. q\<lparr>status := STATUS_EXECUTING\<rparr>) = Inr s4"
    and s': "s' = s4\<lparr>time := time s4 + 1\<rparr>"
    unfolding thenR_eq_Inr by blast
  have n: "sched_next cfg s = Inr nx" using ge lp by (simp add: sched_next_def)
  have "same_status s s1" by (rule same_status_dispatch [OF d])
  moreover have "same_status s1 s2" by (rule same_status_set_proc [OF p2]) simp
  ultimately have s2: "same_status s s2" by (rule same_status_trans)
  have keep: "is_live (status (?cond (procTab s2 ! nat (pid pe)))) = live_at s2 (pid pe)"
    by (cases "status (procTab s2 ! nat (pid pe)) = STATUS_EXECUTING")
      (simp_all add: live_at_def is_live_def)
  have c3: "currentProcesses s3 = currentProcesses s2" "live_count s3 = live_count s2"
    "length (procTab s3) = length (procTab s2)"
    using set_proc_count(1,2,3) [OF p3] by (simp_all add: keep)
  have l3: "live_at s3 nx = live_at s2 nx"
    using set_proc_count(5) [OF p3, of nx] by (simp add: keep live_at_def)
  have nl: "nat nx < length (procTab s)"
    using set_proc_count(4) [OF p4] c3(3) same_status_nth(2) [OF s2] s2
    by (metis same_status_def length_map)
  have l2: "live_at s2 nx = live_at s nx" by (rule same_status_live_at [OF s2 nl])
  have c4: "currentProcesses s4 = currentProcesses s3"
    "int (live_count s4) = int (live_count s3) - (if live_at s3 nx then 1 else 0) + 1"
    using set_proc_count(1,2) [OF p4] by (simp_all add: is_live_def)
  have "currentProcesses s' = currentProcesses s"
    unfolding s' using c4(1) c3(1) same_status_count(2) [OF s2] by simp
  moreover have "int (live_count s') = int (live_count s) + (if live_at s nx then 0 else 1)"
    unfolding s' using c4(2) c3(2) same_status_count(1) [OF s2] l3 l2
    by (simp add: live_count_def)
  ultimately show ?thesis using n by blast
qed

text \<open>kill: the status of the target becomes TERMINATED and the counter drops by one.\<close>

lemma kill_count:
  assumes run: "sys_kill cfg s = Inr s'"
  shows "currentProcesses s' = currentProcesses s - 1"
    and "int (live_count s') = int (live_count s) - (if kill_guard s then 1 else 0)"
proof -
  let ?pd = "sint (gpr (uctx s) 0)"
  let ?s0 = "PL011_putc CHR ''K'' s"
  let ?body = "\<lambda>i t. thenR (get_proc t ?pd)
                  (\<lambda>q. thenR (get_fd q i)
                     (\<lambda>fd. if fd \<ge> 0
                           then thenR (close_fd cfg t fd ?pd) (\<lambda>(t1, r). Inr t1)
                           else Inr t))"
  have "sys_kill cfg s =
            thenR (for_loop [0..<MAX_FDS cfg] ?body ?s0)
              (\<lambda>s1. thenR (set_proc s1 ?pd (\<lambda>q. q\<lparr>status := STATUS_TERMINATED\<rparr>))
              (\<lambda>s2. Inr (set_gpr0 0 (s2\<lparr>currentProcesses := currentProcesses s2 - 1\<rparr>))))"
    by (simp add: sys_kill_def Let_def PL011_putc_def cong: if_cong)
  with run obtain s1 s2 where
    l: "for_loop [0..<MAX_FDS cfg] ?body ?s0 = Inr s1"
    and s2: "set_proc s1 ?pd (\<lambda>q. q\<lparr>status := STATUS_TERMINATED\<rparr>) = Inr s2"
    and s': "s' = set_gpr0 0 (s2\<lparr>currentProcesses := currentProcesses s2 - 1\<rparr>)"
    by (auto simp: thenR_eq_Inr)
  from s2 have pd: "0 \<le> ?pd" by (auto simp: set_proc_def split: if_splits)
  have ss: "same_status ?s0 s1"
    by (rule only_fds_same_status [OF only_fds_kill_loop [OF l pd]])
  have "same_status s ?s0" by (simp add: same_status_def PL011_putc_def)
  then have s1: "same_status s s1" using ss by (rule same_status_trans)
  have nl: "nat ?pd < length (procTab s)"
    using set_proc_count(4) [OF s2] same_status_nth(2) [OF s1] s1
    by (metis same_status_def length_map)
  have la: "live_at s1 ?pd = live_at s ?pd" by (rule same_status_live_at [OF s1 nl])
  have c2: "currentProcesses s2 = currentProcesses s1"
    "int (live_count s2) = int (live_count s1) - (if live_at s1 ?pd then 1 else 0)"
    using set_proc_count(1,2) [OF s2] by (simp_all add: is_live_def)
  show "currentProcesses s' = currentProcesses s - 1"
    unfolding s' using c2(1) same_status_count(2) [OF s1] by (simp add: set_gpr0_def)
  show "int (live_count s') = int (live_count s) - (if kill_guard s then 1 else 0)"
    unfolding s' kill_guard_def using c2(2) same_status_count(1) [OF s1] la
    by (simp add: set_gpr0_def live_count_def)
qed

text \<open>
  The slot that the search of \<open>fork\<close> arrives at is neither READY nor EXECUTING exactly when
  the search has found a TERMINATED slot or the default slot is neither.
\<close>

lemma find_terminated_guard:
  assumes "find_terminated s xs d = Inr r"
  shows "\<not> live_at s r \<longleftrightarrow>
           (\<exists>j \<in> set xs. status (procTab s ! j) = STATUS_TERMINATED) \<or> \<not> live_at s d"
  using assms
proof (induction xs)
  case Nil
  then show ?case by simp
next
  case (Cons i xs)
  show ?case
  proof (cases "status (procTab s ! i) = STATUS_TERMINATED")
    case True
    with Cons.prems have "r = int i" by (auto simp: get_proc_def split: if_splits)
    with True show ?thesis by (simp add: live_at_def is_live_def)
  next
    case False
    with Cons.prems have "find_terminated s xs d = Inr r"
      by (auto simp: get_proc_def split: if_splits)
    from Cons.IH [OF this] False show ?thesis by simp
  qed
qed

lemma fork_count:
  assumes run: "sys_fork cfg s = Inr s'" and inv: "count_inv s"
  shows "count_inv s' \<longleftrightarrow> fork_guard cfg s"
proof (cases "int (MAX_PROCS cfg) \<le> currentProcesses s")
  case True
  then have "same_status s s'"
    using run
    by (auto simp: sys_fork_def Let_def PL011_putc_def print_eq set_gpr0_def same_status_def)
  then have "count_inv s'" using inv by (rule same_status_inv)
  then show ?thesis using True by (simp add: fork_guard_def)
next
  case False
  then have room: "currentProcesses s < int (MAX_PROCS cfg)" by simp
  from sys_fork_Inr [OF run room]
  obtain iNew e s9 where ft: "find_terminated s [1..<MAX_PROCS cfg] (currentProcesses s) = Inr iNew"
    and n: "0 \<le> iNew" "nat iNew < length (procTab s)"
    and loop: "for_loop [0..<MAX_FDS cfg] (fork_body iNew) (fork_pre cfg s iNew e) = Inr s9"
    and post: "fork_post iNew s9 = Inr s'"
    by blast
  let ?pre = "fork_pre cfg s iNew e"
  have lpre: "int (live_count ?pre) = int (live_count s) - (if live_at s iNew then 1 else 0) + 1"
    using live_count_update [OF n(2)]
    by (simp add: fork_pre_def Let_def live_count_def is_live_def live_at_def)
  have cpre: "currentProcesses ?pre = currentProcesses s + 1"
    by (simp add: fork_pre_def Let_def)
  have a: "same_status ?pre s9"
    by (rule only_fds_same_status [OF only_fds_fork_loop [OF loop n(1)]])
  have "same_status s9 s'"
  proof (cases "get_proc s9 iNew")
    case (Inl a)
    with post show ?thesis by (simp add: fork_post_def)
  next
    case (Inr c9)
    with post have sp: "set_proc (set_gpr0 (word_of_int (pid c9)) s9) iNew
           (\<lambda>q. q\<lparr>ctx := (ctx q)\<lparr>gpr := (gpr (ctx q))(0 := 0)\<rparr>\<rparr>) = Inr s'"
      by (simp add: fork_post_def)
    have "same_status s9 (set_gpr0 (word_of_int (pid c9)) s9)"
      by (simp add: same_status_def set_gpr0_def)
    moreover have "same_status (set_gpr0 (word_of_int (pid c9)) s9) s'"
      by (rule same_status_set_proc [OF sp]) simp
    ultimately show ?thesis by (rule same_status_trans)
  qed
  with a have ss: "same_status ?pre s'" by (rule same_status_trans)
  have "count_inv s' \<longleftrightarrow> \<not> live_at s iNew"
    using same_status_count [OF ss] lpre cpre inv by (simp add: count_inv_def)
  also have "\<dots> \<longleftrightarrow> fork_guard cfg s"
    using find_terminated_guard [OF ft] False by (simp add: fork_guard_def)
  finally show ?thesis .
qed

lemma close_fd_neg:
  assumes "close_fd cfg s fd pd = Inr (t, r)" and "\<not> 0 \<le> pd"
  shows "t = s"
proof (cases "0 \<le> fd \<and> fd < int (MAX_FDS cfg)")
  case True
  then have "[0..<MAX_FDS cfg] = 0 # [1..<MAX_FDS cfg]" by (simp add: upt_rec)
  then have "\<exists>x. close_fd cfg s fd pd = Inl x"
    using True assms(2) by (simp add: close_fd_def get_proc_def)
  with assms(1) show ?thesis by auto
next
  case False
  with assms(1) show ?thesis by (auto simp: close_fd_def)
qed

lemma close_fd_executing:
  assumes "close_fd cfg s fd pd = Inr (t, r)"
  shows "executing t = executing s"
proof (cases "0 \<le> pd")
  case True
  from only_fds_close_fd [OF assms True] show ?thesis by (simp add: only_fds_def)
next
  case False
  from close_fd_neg [OF assms False] show ?thesis by simp
qed

text \<open>
  The teardown of \<open>exit\<close>: the counter drops by one, and the count drops by one exactly when
  the executing slot was READY or EXECUTING.
\<close>

lemma teardown_count:
  assumes run: "exit_teardown cfg s = Inr t"
  shows "\<exists>e. executing s = Some e \<and> currentProcesses t = currentProcesses s - 1 \<and>
           int (live_count t)
             = int (live_count s) - (if is_live (status (procTab s ! e)) then 1 else 0)"
proof -
  let ?s0 = "PL011_putc CHR ''X'' s"
  let ?body = "\<lambda>i t. thenR (get_executing t)
                 (\<lambda>(e, pe). thenR (get_fd pe i)
                    (\<lambda>fd. if fd \<ge> 0
                          then thenR (close_fd cfg t fd (pid pe)) (\<lambda>(t1, r). Inr t1)
                          else Inr t))"
  let ?P = "\<lambda>u. same_status ?s0 u \<and> executing u = executing s"
  from run obtain s1 where l: "for_loop [0..<MAX_FDS cfg] ?body ?s0 = Inr s1"
    and rest: "thenR (get_executing s1)
                 (\<lambda>(e, pe). thenR (set_proc s1 (int e) (\<lambda>q. q\<lparr>status := STATUS_TERMINATED\<rparr>))
                 (\<lambda>s2. Inr (s2\<lparr>currentProcesses := currentProcesses s2 - 1\<rparr>))) = Inr t"
    by (auto simp: exit_teardown_def thenR_eq_Inr)
  have p1: "?P s1"
  proof (rule for_loop_inv [OF l, where P = ?P])
    show "?P ?s0" by (simp add: same_status_refl PL011_putc_def)
  next
    fix i u u'
    assume u: "?P u" and b: "?body i u = Inr u'"
    from b have "u' = u \<or> (\<exists>fd pd r. close_fd cfg u fd pd = Inr (u', r))"
      by (auto simp: thenR_eq_Inr split: if_splits)
    then show "?P u'"
    proof
      assume "u' = u"
      with u show ?thesis by simp
    next
      assume "\<exists>fd pd r. close_fd cfg u fd pd = Inr (u', r)"
      then obtain fd pd r where c: "close_fd cfg u fd pd = Inr (u', r)" by blast
      from same_status_close_fd [OF c] close_fd_executing [OF c] u
      show ?thesis by (auto intro: same_status_trans)
    qed
  qed
  have "same_status s ?s0" by (simp add: same_status_def PL011_putc_def)
  with p1 have ss: "same_status s s1" by (blast intro: same_status_trans)
  from rest obtain e pe where ge: "get_executing s1 = Inr (e, pe)"
    by (cases "get_executing s1") auto
  then have e1: "executing s1 = Some e"
    by (auto simp: get_executing_def thenR_eq_Inr split: option.splits)
  with p1 have e: "executing s = Some e" by simp
  from rest ge obtain s2 where s2: "set_proc s1 (int e) (\<lambda>q. q\<lparr>status := STATUS_TERMINATED\<rparr>) = Inr s2"
    and t: "t = s2\<lparr>currentProcesses := currentProcesses s2 - 1\<rparr>"
    by (auto simp: thenR_eq_Inr)
  have el: "nat (int e) < length (procTab s)"
    using set_proc_count(4) [OF s2] ss by (metis same_status_def length_map)
  have la: "live_at s1 (int e) = live_at s (int e)" by (rule same_status_live_at [OF ss el])
  have c2: "currentProcesses s2 = currentProcesses s1"
    "int (live_count s2) = int (live_count s1) - (if live_at s1 (int e) then 1 else 0)"
    using set_proc_count(1,2) [OF s2] by (simp_all add: is_live_def)
  have "currentProcesses t = currentProcesses s - 1"
    unfolding t using c2(1) same_status_count(2) [OF ss] by simp
  moreover have "int (live_count t)
             = int (live_count s) - (if is_live (status (procTab s ! e)) then 1 else 0)"
    unfolding t using c2(2) same_status_count(1) [OF ss] la
    by (simp add: live_count_def live_at_def)
  ultimately show ?thesis using e by blast
qed

lemma exit_count:
  assumes run: "sys_exit cfg s = Inr s'" and inv: "count_inv s"
  shows "count_inv s' \<longleftrightarrow> exit_guard cfg s"
proof -
  from run obtain t where t: "exit_teardown cfg s = Inr t" and sch: "schedule cfg t = Inr s'"
    by (auto simp: sys_exit_def thenR_eq_Inr)
  from teardown_count [OF t] obtain e where e: "executing s = Some e"
    and ct: "currentProcesses t = currentProcesses s - 1"
    and lt: "int (live_count t)
               = int (live_count s) - (if is_live (status (procTab s ! e)) then 1 else 0)"
    by blast
  from schedule_count [OF sch] obtain nx where nx: "sched_next cfg t = Inr nx"
    and cs: "currentProcesses s' = currentProcesses t"
    and ls: "int (live_count s') = int (live_count t) + (if live_at t nx then 0 else 1)"
    by blast
  have g: "exit_guard cfg s \<longleftrightarrow> is_live (status (procTab s ! e)) \<and> live_at t nx"
    using e t nx by (simp add: exit_guard_def sched_guard_def)
  show ?thesis
    unfolding g using inv ct lt cs ls by (auto simp: count_inv_def split: if_splits)
qed

text \<open>One entry, from a state in which the counter is right.\<close>

lemma trap_count:
  assumes run: "kernel_trap cfg tr s = Inr s'" and inv: "count_inv s"
  shows "count_inv s' \<longleftrightarrow> count_guard cfg tr s"
proof (cases tr)
  case (Irq i)
  show ?thesis
  proof (cases "i = GIC_SOURCE_TIMER0 cfg")
    case True
    with Irq run have sch: "schedule cfg s = Inr s'"
      by (simp add: kernel_trap_def hilevel_handler_irq_def)
    from schedule_count [OF sch] inv True Irq show ?thesis
      by (auto simp: count_inv_def count_guard_def sched_guard_def split: if_splits)
  next
    case False
    with Irq run inv show ?thesis
      by (simp add: kernel_trap_def hilevel_handler_irq_def count_guard_def)
  qed
next
  case (Svc i)
  from Svc run have r: "hilevel_handler_svc cfg s i = Inr s'" by (simp add: kernel_trap_def)
  have g: "count_guard cfg tr s
             = (if i = 0x00 then sched_guard cfg s
                else if i = 0x03 then fork_guard cfg s
                else if i = 0x04 then exit_guard cfg s
                else if i = 0x06 then kill_guard s
                else True)"
    using Svc by (simp add: count_guard_def)
  consider (call_yield) "i = 0x00" | (call_write) "i = 0x01" | (call_read) "i = 0x02"
    | (call_fork) "i = 0x03" | (call_exit) "i = 0x04" | (call_exec) "i = 0x05"
    | (call_kill) "i = 0x06" | (call_nice) "i = 0x07" | (call_pipe) "i = 0x08"
    | (call_close) "i = 0x09"
    | (call_unknown) "i \<notin> {0x00, 0x01, 0x02, 0x03, 0x04, 0x05, 0x06, 0x07, 0x08, 0x09}"
    by blast
  then show ?thesis
  proof cases
    case call_yield
    with r have sch: "schedule cfg s = Inr s'" by (simp add: hilevel_handler_svc_def)
    from schedule_count [OF sch] inv call_yield show ?thesis
      unfolding g by (auto simp: count_inv_def sched_guard_def split: if_splits)
  next
    case call_write
    with r have "sys_write cfg s = Inr s'" by (simp add: hilevel_handler_svc_def)
    from same_status_inv [OF same_status_write [OF this] inv] call_write show ?thesis
      unfolding g by simp
  next
    case call_read
    with r have "sys_read cfg s = Inr s'" by (simp add: hilevel_handler_svc_def)
    from same_status_inv [OF same_status_read [OF this] inv] call_read show ?thesis
      unfolding g by simp
  next
    case call_fork
    with r have "sys_fork cfg s = Inr s'" by (simp add: hilevel_handler_svc_def)
    from fork_count [OF this inv] call_fork show ?thesis unfolding g by simp
  next
    case call_exit
    with r have "sys_exit cfg s = Inr s'" by (simp add: hilevel_handler_svc_def)
    from exit_count [OF this inv] call_exit show ?thesis unfolding g by simp
  next
    case call_exec
    with r have "sys_exec cfg s = Inr s'" by (simp add: hilevel_handler_svc_def)
    from same_status_inv [OF same_status_exec [OF this] inv] call_exec show ?thesis
      unfolding g by simp
  next
    case call_kill
    with r have k: "sys_kill cfg s = Inr s'" by (simp add: hilevel_handler_svc_def)
    from kill_count [OF k] inv call_kill show ?thesis
      unfolding g by (auto simp: count_inv_def split: if_splits)
  next
    case call_nice
    with r have "sys_nice cfg s = Inr s'" by (simp add: hilevel_handler_svc_def)
    from same_status_inv [OF same_status_nice [OF this] inv] call_nice show ?thesis
      unfolding g by simp
  next
    case call_pipe
    with r have "sys_pipe cfg s = Inr s'" by (simp add: hilevel_handler_svc_def)
    from same_status_inv [OF same_status_pipe [OF this] inv] call_pipe show ?thesis
      unfolding g by simp
  next
    case call_close
    with r have "sys_close cfg s = Inr s'" by (simp add: hilevel_handler_svc_def)
    from same_status_inv [OF same_status_close [OF this] inv] call_close show ?thesis
      unfolding g by simp
  next
    case call_unknown
    with r have "s' = s" by (simp add: hilevel_handler_svc_def)
    with inv call_unknown show ?thesis unfolding g by simp
  qed
qed

lemma at_trap_count: "count_inv (at_trap s ev) = count_inv s"
  by (simp add: at_trap_def count_inv_def live_count_def)

lemma enter_count:
  assumes "enter cfg s ev = Inr s'" and "count_inv s"
  shows "count_inv s' \<longleftrightarrow> ev_guard cfg s ev"
  unfolding ev_guard_def
  by (rule trap_count [OF assms(1) [unfolded enter_def]]) (simp add: at_trap_count assms(2))

lemma run_count:
  assumes "run cfg s evs = Inr s'" and "guarded cfg s evs" and "count_inv s"
  shows "count_inv s'"
  using assms
proof (induction evs arbitrary: s)
  case Nil
  then show ?case by simp
next
  case (Cons ev evs)
  from Cons.prems(1) obtain s1 where s1: "enter cfg s ev = Inr s1" "run cfg s1 evs = Inr s'"
    by (auto simp: thenR_eq_Inr)
  from Cons.prems(2) s1(1) have g: "ev_guard cfg s ev" "guarded cfg s1 evs" by simp_all
  from enter_count [OF s1(1) Cons.prems(3)] g(1) have "count_inv s1" by simp
  from Cons.IH [OF s1(2) g(2) this] show ?case .
qed

lemma boot_count:
  assumes "hilevel_handler_rst cfg (boot cfg c m) = Inr s"
  shows "count_inv s"
  by (rule count_reset [OF assms]) (simp_all add: boot_def)

text \<open>
  Claim C5, in the form that holds. Let \<open>s\<close> be reached from the reset, entered with the zeroed
  globals, by a run over the events \<open>evs\<close> each of which met its condition. Then
  \<open>currentProcesses\<close> equals the number of READY or EXECUTING slots in \<open>s\<close>, and a further
  entry that returns keeps the equality exactly when it meets its condition: for \<open>kill\<close> the
  target is READY or EXECUTING; for \<open>fork\<close> the table is full, or a TERMINATED slot is found,
  or the slot \<open>currentProcesses\<close> is not READY or EXECUTING; for the timer interrupt and
  \<open>yield\<close> the slot the scheduler selects is READY or EXECUTING; for \<open>exit\<close> the executing
  slot is READY or EXECUTING and the slot the scheduler selects afterwards is too. All other
  entries keep the equality.
\<close>

theorem count_preserved:
  assumes "from_reset cfg c m evs = Inr s" and "guarded_from_reset cfg c m evs"
  shows "count_inv s \<and>
         (\<forall>ev s'. enter cfg s ev = Inr s' \<longrightarrow> (count_inv s' \<longleftrightarrow> ev_guard cfg s ev))"
proof -
  from assms(1) obtain s0 where s0: "hilevel_handler_rst cfg (boot cfg c m) = Inr s0"
    "run cfg s0 evs = Inr s"
    by (auto simp: from_reset_def thenR_eq_Inr)
  from assms(2) s0(1) have g: "guarded cfg s0 evs" by (simp add: guarded_from_reset_def)
  from run_count [OF s0(2) g boot_count [OF s0(1)]] have i: "count_inv s" .
  with enter_count show ?thesis by blast
qed

lemma run_snoc: "run cfg s (evs @ [ev]) = thenR (run cfg s evs) (\<lambda>t. enter cfg t ev)"
proof (induction evs arbitrary: s)
  case Nil
  show ?case by (cases "enter cfg s ev") simp_all
next
  case (Cons a evs)
  show ?case by (cases "enter cfg s a") (simp_all add: Cons.IH)
qed

lemma run0_snoc: "run0 (evs @ [ev]) = thenR (run0 evs) (\<lambda>t. enter cfg0 t ev)"
  by (cases "hilevel_handler_rst cfg0 (boot cfg0 zero_ctx zero_mem)")
    (simp_all add: run0_def from_reset_def run_snoc)

theorem count_preserved_witness:
  "guarded_from_reset cfg0 zero_ctx zero_mem good_run \<and>
   (\<exists>s s1 s2. run0 good_run = Inr s \<and> count_inv s \<and>
      enter cfg0 s (call_ev 0x06 1) = Inr s1 \<and> ev_guard cfg0 s (call_ev 0x06 1) \<and>
      count_inv s1 \<and>
      enter cfg0 s (call_ev 0x06 3) = Inr s2 \<and> \<not> ev_guard cfg0 s (call_ev 0x06 3) \<and>
      \<not> count_inv s2)"
proof -
  have g: "guarded_from_reset cfg0 zero_ctx zero_mem good_run" by code_simp
  have "map_sum id count_inv (run0 good_run) = Inr True" by code_simp
  then obtain s where s: "run0 good_run = Inr s" by (cases "run0 good_run") simp_all
  have "map_sum id count_inv (run0 (good_run @ [call_ev 0x06 1])) = Inr True" by code_simp
  then obtain s1 where s1: "enter cfg0 s (call_ev 0x06 1) = Inr s1" "count_inv s1"
    unfolding run0_snoc s by (cases "enter cfg0 s (call_ev 0x06 1)") simp_all
  have "map_sum id count_inv (run0 (good_run @ [call_ev 0x06 3])) = Inr False" by code_simp
  then obtain s2 where s2: "enter cfg0 s (call_ev 0x06 3) = Inr s2" "\<not> count_inv s2"
    unfolding run0_snoc s by (cases "enter cfg0 s (call_ev 0x06 3)") simp_all
  from count_preserved [OF s [unfolded run0_def] g]
  have i: "count_inv s"
    and st: "\<forall>ev s'. enter cfg0 s ev = Inr s' \<longrightarrow> (count_inv s' \<longleftrightarrow> ev_guard cfg0 s ev)"
    by blast+
  from st s1 have "ev_guard cfg0 s (call_ev 0x06 1)" by blast
  moreover from st s2 have "\<not> ev_guard cfg0 s (call_ev 0x06 3)" by blast
  ultimately show ?thesis using g s i s1 s2 by blast
qed

text \<open>
  Claim C5 as the specification states it fails, in states reached from the reset. After the
  reset the counter is 1 and slot 0 is the only READY slot. \<open>kill(1, x)\<close> marks the INVALID
  slot 1 TERMINATED and decrements the counter to 0. \<open>exit\<close> by the console, the only
  process, decrements the counter to 0, and the scheduler, finding no READY slot, dispatches
  the console again and marks it EXECUTING. After \<open>kill(0, x)\<close> by the console on itself the
  equality holds, with no process left, and the next tick of the timer, or a \<open>yield\<close>, marks
  the console EXECUTING again. After a fork and \<open>kill(0, x)\<close> the counter is 1 and slot 1 is
  READY: the next fork takes slot 1, the slot numbered by the counter, and counts the child
  twice.
\<close>

theorem count_counterexample:
  "map_sum id count_inv (run0 []) = Inr True \<and>
   map_sum id currentProcesses (run0 [call_ev 0x06 1]) = Inr 0 \<and>
   map_sum id live_count (run0 [call_ev 0x06 1]) = Inr 1 \<and>
   map_sum id count_inv (run0 [call_ev 0x06 1]) = Inr False \<and>
   map_sum id count_inv (run0 [call_ev 0x04 0]) = Inr False \<and>
   map_sum id count_inv (run0 [call_ev 0x06 0]) = Inr True \<and>
   map_sum id count_inv (run0 [call_ev 0x06 0, tick_ev]) = Inr False \<and>
   map_sum id count_inv (run0 [call_ev 0x06 0, call_ev 0x00 0]) = Inr False \<and>
   map_sum id count_inv (run0 [call_ev 0x03 0, call_ev 0x06 0]) = Inr True \<and>
   map_sum id count_inv (run0 [call_ev 0x03 0, call_ev 0x06 0, call_ev 0x03 0]) = Inr False"
  by code_simp

end
